theory Spec2Isabelle
  imports Main
begin

section \<open>serve\_core.py: an ESP8266 core dump served to GDB\<close>

text \<open>
  The program is Python 2. A \<open>str\<close> is a byte string, modelled as \<open>string\<close>
  (a list of 8-bit \<open>char\<close>); \<open>ord\<close> is \<open>of_char\<close> and \<open>chr\<close> is \<open>char_of\<close>.
  Integers are unbounded (\<open>int\<close>). Every exception the code can raise is a value
  of \<open>py_error\<close>.
\<close>

type_synonym bytes = string

datatype py_error =
  IndexError | KeyError | ValueError | TypeError | AttributeError | IOError
  | OverflowError | MemoryError | UnicodeEncodeError | BinasciiError

subsection \<open>Hexadecimal formatting and parsing\<close>

text \<open>The digit characters that \<open>format(n, 'x')\<close> produces, by digit value.\<close>

definition hex_digit :: "nat \<Rightarrow> char" where
  "hex_digit n = ''0123456789abcdef'' ! n"

text \<open>The value of a hexadecimal digit, upper or lower case; \<open>None\<close> for any other byte.\<close>

definition hex_val :: "char \<Rightarrow> nat option" where
  "hex_val c =
     map_of
       [(CHR ''0'', 0), (CHR ''1'', 1), (CHR ''2'', 2), (CHR ''3'', 3), (CHR ''4'', 4),
        (CHR ''5'', 5), (CHR ''6'', 6), (CHR ''7'', 7), (CHR ''8'', 8), (CHR ''9'', 9),
        (CHR ''a'', 10), (CHR ''b'', 11), (CHR ''c'', 12), (CHR ''d'', 13), (CHR ''e'', 14),
        (CHR ''f'', 15),
        (CHR ''A'', 10), (CHR ''B'', 11), (CHR ''C'', 12), (CHR ''D'', 13), (CHR ''E'', 14),
        (CHR ''F'', 15)] c"

definition is_lower_hex :: "char \<Rightarrow> bool" where
  "is_lower_hex c = (c \<in> set ''0123456789abcdef'')"

text \<open>\<open>format(n, 'x')\<close> for a natural number: no leading zeros, at least one digit.\<close>

fun to_hex :: "nat \<Rightarrow> string" where
  "to_hex n = (if n < 16 then [hex_digit n] else to_hex (n div 16) @ [hex_digit (n mod 16)])"

declare to_hex.simps [simp del]

text \<open>\<open>"{0:02x}".format(n)\<close>: zero-padded on the left to a width of two.\<close>

definition fmt_02x :: "nat \<Rightarrow> string" where
  "fmt_02x n = (let s = to_hex n in replicate (2 - length s) (CHR ''0'') @ s)"

subsection \<open>GDBHandler: payload encodings, checksum, framing\<close>

text \<open>\<open>encode_bytes\<close>: \<open>"".join("{0:02x}".format(ord(i)) for i in bs)\<close>.\<close>

definition encode_bytes :: "bytes \<Rightarrow> string" where
  "encode_bytes bs = concat (map (\<lambda>i. fmt_02x (of_char i)) bs)"

text \<open>
  \<open>decode_bytes\<close>: \<open>s.decode('hex')\<close>, that is \<open>binascii.unhexlify\<close>. It raises
  \<open>TypeError\<close> on a string of odd length and on a character that is no hexadecimal digit.
\<close>

fun decode_bytes :: "string \<Rightarrow> py_error + bytes" where
  "decode_bytes [] = Inr []"
| "decode_bytes [a] = Inl TypeError"
| "decode_bytes (a # b # rest) =
     (case (hex_val a, hex_val b) of
        (Some h, Some l) \<Rightarrow>
          (case decode_bytes rest of
             Inl e \<Rightarrow> Inl e
           | Inr bs \<Rightarrow> Inr (char_of (16 * h + l) # bs))
      | _ \<Rightarrow> Inl TypeError)"

text \<open>\<open>_checksum\<close>: \<open>sum(ord(i) for i in s) % 0x100\<close>.\<close>

definition checksum :: "string \<Rightarrow> nat" where
  "checksum s = sum_list (map of_char s) mod 0x100"

text \<open>The string that \<open>send_str\<close> hands to \<open>sendall\<close>:
  \<open>"${0}#{1:02x}".format(s, self._checksum(s))\<close>.\<close>

definition frame :: "string \<Rightarrow> string" where
  "frame s = ''$'' @ s @ ''#'' @ fmt_02x (checksum s)"

subsection \<open>Builtins: \<open>int(s, 16)\<close>, slices, \<open>split\<close>, \<open>startswith\<close>\<close>

definition is_space :: "char \<Rightarrow> bool" where
  "is_space c = (c \<in> set [CHR '' '', CHR 0x09, CHR 0x0A, CHR 0x0B, CHR 0x0C, CHR 0x0D])"

definition strip :: "string \<Rightarrow> string" where
  "strip s = rev (dropWhile is_space (rev (dropWhile is_space s)))"

text \<open>The value of a string of hexadecimal digits, most significant first;
  \<open>None\<close> when a character is no digit.\<close>

fun hex_value :: "nat \<Rightarrow> string \<Rightarrow> nat option" where
  "hex_value acc [] = Some acc"
| "hex_value acc (c # cs) =
     (case hex_val c of None \<Rightarrow> None | Some d \<Rightarrow> hex_value (16 * acc + d) cs)"

text \<open>
  \<open>int(s, 16)\<close>: surrounding whitespace is ignored, then an optional sign, an optional
  \<open>0x\<close> or \<open>0X\<close> prefix and at least one hexadecimal digit; anything else raises
  \<open>ValueError\<close>.
\<close>

definition py_int16 :: "string \<Rightarrow> py_error + int" where
  "py_int16 s =
     (let t = strip s;
          neg = (t \<noteq> [] \<and> hd t = CHR ''-'');
          t1 = (if t \<noteq> [] \<and> (hd t = CHR ''-'' \<or> hd t = CHR ''+'') then tl t else t);
          t2 = (if take 2 t1 = ''0x'' \<or> take 2 t1 = ''0X'' then drop 2 t1 else t1)
      in if t2 = [] then Inl ValueError
         else (case hex_value 0 t2 of
                 None \<Rightarrow> Inl ValueError
               | Some n \<Rightarrow> Inr (if neg then - int n else int n)))"

text \<open>
  \<open>xs[i:j]\<close>: a negative index counts from the end, both indices are clamped to the
  length, and the result is empty when the bounds cross.
\<close>

definition py_slice :: "'a list \<Rightarrow> int \<Rightarrow> int \<Rightarrow> 'a list" where
  "py_slice xs i j =
     (let n = int (length xs);
          i' = (if i < 0 then max 0 (i + n) else min i n);
          j' = (if j < 0 then max 0 (j + n) else min j n)
      in take (nat (j' - i')) (drop (nat i') xs))"

text \<open>\<open>s.split(c)\<close> for a one-character separator: always at least one piece.\<close>

fun split_on :: "char \<Rightarrow> string \<Rightarrow> string list" where
  "split_on c [] = [[]]"
| "split_on c (x # xs) =
     (if x = c then [] # split_on c xs
      else (case split_on c xs of
              [] \<Rightarrow> [[x]]
            | w # ws \<Rightarrow> (x # w) # ws))"

definition startswith :: "string \<Rightarrow> string \<Rightarrow> bool" where
  "startswith s p = (take (length p) s = p)"

subsection \<open>Core: the memory map and \<open>Core.read\<close>\<close>

text \<open>An element of \<open>self.mem\<close>: the tuple \<open>(base, end, data)\<close>.\<close>

type_synonym region = "int \<times> int \<times> bytes"

text \<open>
  The limits of the Python process: \<open>maxsize\<close> is \<open>sys.maxsize\<close>, the largest length
  and repeat count there is; \<open>avail\<close> is the largest count for which \<open>"\0" * size\<close> and
  the reply built from it can still be allocated.
\<close>

record platform =
  maxsize :: int
  avail :: int

text \<open>
  \<open>"\0" * size\<close>: \<open>OverflowError\<close> for a count outside the index range
  \<open>-maxsize - 1 .. maxsize\<close>, \<open>MemoryError\<close> for one that cannot be allocated, the empty
  string for any other count that is not positive.
\<close>

definition zero_bytes :: "platform \<Rightarrow> int \<Rightarrow> py_error + bytes" where
  "zero_bytes pf sz =
     (if sz > maxsize pf \<or> sz < - maxsize pf - 1 then Inl OverflowError
      else if sz > avail pf then Inl MemoryError
      else Inr (replicate (nat sz) (CHR 0x00)))"

text \<open>
  \<open>Core.read\<close>: the first region, in list order, that contains \<open>addr\<close> answers with the
  slice \<open>data[addr - base : addr - base + size]\<close>; when no region contains \<open>addr\<close> the
  answer is \<open>"\0" * size\<close>.
\<close>

fun read :: "platform \<Rightarrow> region list \<Rightarrow> int \<Rightarrow> int \<Rightarrow> py_error + bytes" where
  "read pf [] addr sz = zero_bytes pf sz"
| "read pf ((base, endd, data) # rest) addr sz =
     (if addr \<ge> base \<and> addr < endd
      then Inr (py_slice data (addr - base) (addr - base + sz))
      else read pf rest addr sz)"

subsection \<open>Builtins: \<open>str.rfind\<close>, file reads, \<open>os.path\<close>\<close>

text \<open>\<open>pat\<close> stands in \<open>data\<close> at index \<open>p\<close>, wholly inside \<open>data\<close>.\<close>

definition occurs_at :: "string \<Rightarrow> string \<Rightarrow> nat \<Rightarrow> bool" where
  "occurs_at data pat p = (p + length pat \<le> length data \<and> take (length pat) (drop p data) = pat)"

text \<open>\<open>data.rfind(pat)\<close>: the highest index where \<open>pat\<close> stands, \<open>-1\<close> when there is none.\<close>

fun rfind_from :: "string \<Rightarrow> string \<Rightarrow> nat \<Rightarrow> int" where
  "rfind_from data pat 0 = (if occurs_at data pat 0 then 0 else - 1)"
| "rfind_from data pat (Suc p) =
     (if occurs_at data pat (Suc p) then int (Suc p) else rfind_from data pat p)"

definition rfind :: "string \<Rightarrow> string \<Rightarrow> int" where
  "rfind data pat = rfind_from data pat (length data)"

text \<open>\<open>f.seek(offset); f.read(n)\<close> on a file with content \<open>f\<close>; a negative \<open>n\<close> reads to
  the end of the file.\<close>

definition file_read :: "bytes \<Rightarrow> int \<Rightarrow> int \<Rightarrow> bytes" where
  "file_read f offset n =
     (if n < 0 then drop (nat offset) f else take (nat n) (drop (nat offset) f))"

text \<open>\<open>os.path.basename\<close>: what follows the last slash.\<close>

definition basename :: "string \<Rightarrow> string" where
  "basename p = drop (nat (rfind p ''/'' + 1)) p"

text \<open>
  \<open>os.path.splitext(p)[0]\<close>: \<open>p\<close> up to its last dot, when that dot comes after the last
  slash and after a character of the file name that is no dot; otherwise \<open>p\<close>.
\<close>

definition splitext_root :: "string \<Rightarrow> string" where
  "splitext_root p =
     (let sepIndex = rfind p ''/'';
          dotIndex = rfind p ''.''
      in if dotIndex > sepIndex \<and>
            list_ex (\<lambda>c. c \<noteq> CHR ''.'')
              (take (nat (dotIndex - (sepIndex + 1))) (drop (nat (sepIndex + 1)) p))
         then take (nat dotIndex) p
         else p)"

subsection \<open>Core: locating the dump in the log\<close>

definition START_DELIM :: string where
  "START_DELIM = ''--- BEGIN CORE DUMP ---''"

definition END_DELIM :: string where
  "END_DELIM = ''---- END CORE DUMP ----''"

text \<open>
  The loop of \<open>_search_backwards\<close>; \<open>offset0\<close> is the value of \<open>offset\<close> at the top of
  an iteration. An iteration that goes on has \<open>offset0 > 10000\<close> and hands on
  \<open>offset0 - 5000\<close>.
\<close>

function search_loop :: "bytes \<Rightarrow> int \<Rightarrow> string \<Rightarrow> int \<Rightarrow> int" where
  "search_loop f start_offset pattern offset0 =
     (let offset = max 0 (offset0 - 10000);
          data = file_read f offset (min 10000 start_offset);
          pos = rfind data pattern
      in if pos \<ge> 0 then offset + pos
         else if offset = 0 then - 1
         else search_loop f start_offset pattern (offset + 5000))"
  by pat_completeness auto
termination
  by (relation "measure (\<lambda>(f, start_offset, pattern, offset0). nat offset0)") auto

declare search_loop.simps [simp del]

definition search_backwards :: "bytes \<Rightarrow> int \<Rightarrow> string \<Rightarrow> int" where
  "search_backwards f start_offset pattern = search_loop f start_offset pattern start_offset"

text \<open>
  \<open>_read\<close> up to the text handed to \<open>json.loads\<close>, on a file with content \<open>f\<close>. When a
  delimiter is missing the code calls \<open>os.exit(1)\<close>; the module \<open>os\<close> has no attribute
  \<open>exit\<close>, so this raises \<open>AttributeError\<close>.
\<close>

definition read_core_json :: "bytes \<Rightarrow> py_error + string" where
  "read_core_json f =
     (let end_pos = search_backwards f (int (length f)) END_DELIM
      in if end_pos = - 1 then Inl AttributeError
         else
           (let start_pos = search_backwards f end_pos START_DELIM
            in if start_pos = - 1 then Inl AttributeError
               else
                 (let start_pos' = start_pos + int (length START_DELIM);
                      core_json = file_read f start_pos' (end_pos - start_pos')
                  in Inr (filter (\<lambda>c. c \<noteq> CHR 0x0D) (filter (\<lambda>c. c \<noteq> CHR 0x0A) core_json)))))"

subsection \<open>Core: building the memory map\<close>

text \<open>
  What \<open>json.loads\<close> returns. A dict is the list of its items in the order in which
  \<open>items()\<close> yields them. The value of a float is never looked at. A string is a
  \<open>unicode\<close> object, given by its code points; the program can tell of a code point
  only whether it is ASCII, so that any \<open>char\<close> from \<open>0x80\<close> on stands for one that is not.
\<close>

datatype json =
  JNull | JBool bool | JInt int | JFloat | JStr string
  | JList "json list" | JDict "(string \<times> json) list"

text \<open>
  The environment of the process: the files by name (\<open>None\<close>: \<open>open\<close> raises
  \<open>IOError\<close>), the library functions \<open>json.loads\<close> and \<open>base64.decodestring\<close>, which
  the program takes as they are, and the parsed command line.
\<close>

record env =
  files :: "string \<Rightarrow> bytes option"
  json_loads :: "string \<Rightarrow> py_error + json"
  decodestring :: "json \<Rightarrow> py_error + bytes"
  iram :: string
  iram_addr :: "int option"
  irom :: string
  irom_addr :: "int option"
  rom :: "string option"
  rom_addr :: int
  log :: string

definition IRAM_BASE :: int where "IRAM_BASE = 0x40100000"
definition IROM_BASE :: int where "IROM_BASE = 0x40200000"
definition ROM_BASE :: int where "ROM_BASE = 0x40000000"

text \<open>\<open>_read\<close>: open the log, cut the dump out, parse it.\<close>

definition Core_read :: "env \<Rightarrow> string \<Rightarrow> py_error + json" where
  "Core_read e filename =
     (case files e filename of
        None \<Rightarrow> Inl IOError
      | Some f \<Rightarrow>
          (case read_core_json f of
             Inl err \<Rightarrow> Inl err
           | Inr core_json \<Rightarrow> json_loads e core_json))"

text \<open>\<open>d[key]\<close> on a value: \<open>KeyError\<close> on a dict without the key, \<open>TypeError\<close> on a
  value that is no dict.\<close>

definition getitem :: "json \<Rightarrow> string \<Rightarrow> py_error + json" where
  "getitem v key =
     (case v of
        JDict d \<Rightarrow> (case map_of d key of None \<Rightarrow> Inl KeyError | Some x \<Rightarrow> Inr x)
      | _ \<Rightarrow> Inl TypeError)"

text \<open>
  The address of a region passes through \<open>"{1:#02x}".format(k, v["addr"])\<close>, which
  raises \<open>ValueError\<close> on anything but an integer (a \<open>bool\<close> is one), and then through
  \<open>v["addr"] + len(data)\<close>.
\<close>

definition addr_value :: "json \<Rightarrow> py_error + int" where
  "addr_value v =
     (case v of
        JInt n \<Rightarrow> Inr n
      | JBool b \<Rightarrow> Inr (if b then 1 else 0)
      | _ \<Rightarrow> Inl ValueError)"

definition is_ascii :: "string \<Rightarrow> bool" where
  "is_ascii s = list_all (\<lambda>c. (of_char c :: nat) < 128) s"

text \<open>
  The body of the loop of \<open>_map_core\<close> after its guard, for the item \<open>(k, v)\<close>, in the
  order of evaluation: \<open>v["data"]\<close>, \<open>base64.decodestring\<close>, \<open>v["addr"]\<close>, then
  \<open>"Mapping {0} at {1:#02x}".format(k, v["addr"])\<close>, whose first field turns the
  \<open>unicode\<close> key into a \<open>str\<close> (\<open>UnicodeEncodeError\<close> on a key that is not ASCII) and
  whose second field wants an integer, and last the region that is appended.
\<close>

definition map_entry :: "(json \<Rightarrow> py_error + bytes) \<Rightarrow> string \<Rightarrow> json \<Rightarrow> py_error + region" where
  "map_entry dec k v =
     (case getitem v ''data'' of
        Inl e \<Rightarrow> Inl e
      | Inr p \<Rightarrow>
          (case dec p of
             Inl e \<Rightarrow> Inl e
           | Inr data \<Rightarrow>
               (case getitem v ''addr'' of
                  Inl e \<Rightarrow> Inl e
                | Inr a \<Rightarrow>
                    if \<not> is_ascii k then Inl UnicodeEncodeError
                    else
                      (case addr_value a of
                         Inl e \<Rightarrow> Inl e
                       | Inr addr \<Rightarrow> Inr (addr, addr + int (length data), data)))))"

text \<open>
  \<open>_map_core\<close>, on the items of the dump. An item whose value is no dict, and the item
  \<open>REGS\<close>, are passed over; every other item must yield a region, and the first that
  does not ends the loop with its exception.
\<close>

fun map_core :: "(json \<Rightarrow> py_error + bytes) \<Rightarrow> (string \<times> json) list \<Rightarrow> py_error + region list" where
  "map_core dec [] = Inr []"
| "map_core dec ((k, v) # rest) =
     (case v of
        JDict d \<Rightarrow>
          if k = ''REGS'' then map_core dec rest
          else
            (case map_entry dec k v of
               Inl e \<Rightarrow> Inl e
             | Inr r \<Rightarrow>
                 (case map_core dec rest of
                    Inl e \<Rightarrow> Inl e
                  | Inr mem \<Rightarrow> Inr (r # mem)))
      | _ \<Rightarrow> map_core dec rest)"

text \<open>
  \<open>_map_firmware\<close>. Without an address the offset is read off the file name. The file
  is then read whole; \<open>data[0]\<close> and, when the first byte is \<open>0xea\<close>, \<open>data[1]\<close> raise
  \<open>IndexError\<close> on a file that is too short. \<open>open(None)\<close> raises \<open>TypeError\<close>.
\<close>

definition firmware_addr :: "int option \<Rightarrow> string option \<Rightarrow> int \<Rightarrow> py_error + int" where
  "firmware_addr addr filename base =
     (case addr of
        Some a \<Rightarrow> Inr a
      | None \<Rightarrow>
          (case filename of
             None \<Rightarrow> Inl AttributeError
           | Some fn \<Rightarrow>
               (case py_int16 (splitext_root (basename fn)) of
                  Inl e \<Rightarrow> Inl e
                | Inr off \<Rightarrow> Inr (base + off))))"

definition map_firmware ::
  "(string \<Rightarrow> bytes option) \<Rightarrow> int option \<Rightarrow> string option \<Rightarrow> int \<Rightarrow> py_error + region" where
  "map_firmware fs addr filename base =
     (case firmware_addr addr filename base of
        Inl e \<Rightarrow> Inl e
      | Inr addr1 \<Rightarrow>
          (case filename of
             None \<Rightarrow> Inl TypeError
           | Some fn \<Rightarrow>
               (case fs fn of
                  None \<Rightarrow> Inl IOError
                | Some data \<Rightarrow>
                    (case data of
                       [] \<Rightarrow> Inl IndexError
                     | d0 # ds \<Rightarrow>
                         if (of_char d0 :: nat) = 0xea then
                           (case ds of
                              [] \<Rightarrow> Inl IndexError
                            | d1 # _ \<Rightarrow>
                                (let addr2 = (if (of_char d1 :: nat) = 0x04 then addr1 + 0x10 else addr1)
                                 in Inr (addr2, addr2 + int (length data), data)))
                         else Inr (addr1, addr1 + int (length data), data)))))"

text \<open>The object \<open>Core.__init__\<close> builds.\<close>

record core =
  mem :: "region list"
  regs :: bytes

text \<open>The firmware regions, appended in the order \<open>iram\<close>, \<open>irom\<close> and, when
  \<open>args.rom_addr\<close> is not zero, \<open>rom\<close>.\<close>

definition firmware_regions :: "env \<Rightarrow> py_error + region list" where
  "firmware_regions e =
     (case map_firmware (files e) (iram_addr e) (Some (iram e)) IRAM_BASE of
        Inl err \<Rightarrow> Inl err
      | Inr r1 \<Rightarrow>
          (case map_firmware (files e) (irom_addr e) (Some (irom e)) IROM_BASE of
             Inl err \<Rightarrow> Inl err
           | Inr r2 \<Rightarrow>
               if rom_addr e \<noteq> 0 then
                 (case map_firmware (files e) (Some (rom_addr e)) (rom e) ROM_BASE of
                    Inl err \<Rightarrow> Inl err
                  | Inr r3 \<Rightarrow> Inr [r1, r2, r3])
               else Inr [r1, r2]))"

text \<open>\<open>Core.__init__\<close>. \<open>core.items()\<close> raises \<open>AttributeError\<close> when the dump is no
  dict.\<close>

definition Core_init :: "env \<Rightarrow> string \<Rightarrow> py_error + core" where
  "Core_init e filename =
     (case Core_read e filename of
        Inl err \<Rightarrow> Inl err
      | Inr dump \<Rightarrow>
          (case dump of
             JDict items \<Rightarrow>
               (case map_core (decodestring e) items of
                  Inl err \<Rightarrow> Inl err
                | Inr m \<Rightarrow>
                    (case firmware_regions e of
                       Inl err \<Rightarrow> Inl err
                     | Inr fw \<Rightarrow>
                         (case getitem dump ''REGS'' of
                            Inl err \<Rightarrow> Inl err
                          | Inr r \<Rightarrow>
                              (case getitem r ''data'' of
                                 Inl err \<Rightarrow> Inl err
                               | Inr p \<Rightarrow>
                                   (case decodestring e p of
                                      Inl err \<Rightarrow> Inl err
                                    | Inr rs \<Rightarrow> Inr \<lparr>mem = m @ fw, regs = rs\<rparr>)))))
           | _ \<Rightarrow> Inl AttributeError))"

subsection \<open>GDBHandler: the socket, packets and the dispatch loop\<close>

text \<open>
  The state of one connection: the \<open>Core\<close> object (\<open>mem\<close>, \<open>regs\<close>), the bytes the peer
  has still to deliver before it closes the connection (\<open>inp\<close>), and the arguments of
  the \<open>sendall\<close> calls made so far, oldest first (\<open>out\<close>).
\<close>

record state = core +
  inp :: bytes
  out :: "string list"

definition sendall :: "state \<Rightarrow> string \<Rightarrow> state" where
  "sendall st s = st\<lparr>out := out st @ [s]\<rparr>"

definition send_ack :: "state \<Rightarrow> state" where
  "send_ack st = sendall st ''+''"

definition send_nack :: "state \<Rightarrow> state" where
  "send_nack st = sendall st ''-''"

definition send_str :: "state \<Rightarrow> string \<Rightarrow> state" where
  "send_str st s = sendall st (frame s)"

text \<open>\<open>self.request.recv(1)\<close>: one byte, or the empty string once the peer has closed.\<close>

definition recv1 :: "state \<Rightarrow> string \<times> state" where
  "recv1 st = (case inp st of [] \<Rightarrow> ([], st) | c # cs \<Rightarrow> ([c], st\<lparr>inp := cs\<rparr>))"

text \<open>The loop of \<open>read_until\<close>, on the bytes still to come: the result and the rest.\<close>

fun read_until_loop :: "char \<Rightarrow> string \<Rightarrow> string \<Rightarrow> string \<times> string" where
  "read_until_loop limit buf [] = ([], [])"
| "read_until_loop limit buf (ch # cs) =
     (if ch = limit then (buf, cs) else read_until_loop limit (buf @ [ch]) cs)"

definition read_until :: "state \<Rightarrow> char \<Rightarrow> string \<times> state" where
  "read_until st limit =
     (let (buf, rest) = read_until_loop limit [] (inp st) in (buf, st\<lparr>inp := rest\<rparr>))"

definition expect_packet_start :: "state \<Rightarrow> bool \<times> state" where
  "expect_packet_start st =
     (let (s, st1) = read_until st (CHR ''$'') in (length s > 0, st1))"

text \<open>
  \<open>read_packet\<close>. On a checksum mismatch the diagnostic is formatted first:
  \<open>"... want: {2:02x}".format(pkt, chk, "want:", self._checksum(pkt))\<close> applies the
  integer format \<open>02x\<close> to argument 2, the string \<open>"want:"\<close>, which raises \<open>ValueError\<close>;
  \<open>send_nack\<close> and \<open>return ""\<close> come after it.
\<close>

definition read_packet :: "state \<Rightarrow> (py_error + string) \<times> state" where
  "read_packet st =
     (let (pkt, st1) = read_until st (CHR ''#'');
          (c1, st2) = recv1 st1;
          (c2, st3) = recv1 st2;
          chk = c1 @ c2
      in if length chk \<noteq> 2 then (Inr [], st3)
         else (case py_int16 chk of
                 Inl e \<Rightarrow> (Inl e, st3)
               | Inr n \<Rightarrow>
                   if n \<noteq> int (checksum pkt) then (Inl ValueError, st3)
                   else (Inr pkt, send_ack st3)))"

text \<open>
  The body of the \<open>while\<close> loop of \<open>handle\<close> after \<open>read_packet\<close>: the \<open>if\<close>/\<open>elif\<close>
  chain, in the order of the source. \<open>pkt[0]\<close> raises \<open>IndexError\<close> on the empty string;
  \<open>pkt[1:]\<close> is \<open>tl pkt\<close>. The result is the exception raised, if any, and the state.
\<close>

definition dispatch :: "platform \<Rightarrow> state \<Rightarrow> string \<Rightarrow> py_error option \<times> state" where
  "dispatch pf st pkt =
     (if pkt = ''?'' then (None, send_str st ''S09'')
      else if pkt = ''g'' then (None, send_str st (encode_bytes (regs st)))
      else if pkt = [] then (Some IndexError, st)
      else if hd pkt = CHR ''G'' then
        (case decode_bytes (tl pkt) of
           Inl e \<Rightarrow> (Some e, st)
         | Inr bs \<Rightarrow> (None, send_str (st\<lparr>regs := bs\<rparr>) ''OK''))
      else if hd pkt = CHR ''m'' then
        (case split_on (CHR '','') (tl pkt) of
           [addr, sz] \<Rightarrow>
             (case py_int16 addr of
                Inl e \<Rightarrow> (Some e, st)
              | Inr a \<Rightarrow>
                  (case py_int16 sz of
                     Inl e \<Rightarrow> (Some e, st)
                   | Inr n \<Rightarrow>
                       (case read pf (mem st) a n of
                          Inl e \<Rightarrow> (Some e, st)
                        | Inr bs \<Rightarrow> (None, send_str st (encode_bytes bs)))))
         | _ \<Rightarrow> (Some ValueError, st))
      else if startswith pkt ''Hg'' then (None, send_str st ''OK'')
      else if startswith pkt ''Hc-1'' then (None, send_str st ''E01'')
      else if pkt = ''qC'' then (None, send_str st ''1'')
      else if pkt = ''qTStatus'' \<or> pkt = ''qOffsets'' \<or> startswith pkt ''qSupported''
        then (None, send_str st [])
      else if pkt = ''qAttached'' then (None, send_str st ''1'')
      else if pkt = ''qSymbol::'' then (None, send_str st ''OK'')
      else (None, send_str st []))"

text \<open>How \<open>handle\<close> ends: the loop is left when the peer closes, or an exception escapes.\<close>

datatype outcome = Closed | Raised py_error

lemma read_until_loop_length:
  "read_until_loop limit buf xs = (r, rest) \<Longrightarrow> length rest \<le> length xs"
  by (induction xs arbitrary: buf) (auto split: if_splits intro: le_SucI)

lemma read_until_loop_consumes:
  "read_until_loop limit buf xs = (r, rest) \<Longrightarrow> r \<noteq> [] \<Longrightarrow> length rest < length xs"
  by (induction xs arbitrary: buf) (auto split: if_splits intro: less_SucI)

lemma expect_packet_start_consumes:
  "expect_packet_start st = (True, st1) \<Longrightarrow> length (inp st1) < length (inp st)"
  by (auto simp: expect_packet_start_def read_until_def split: prod.splits
           dest: read_until_loop_consumes)

lemma recv1_length: "recv1 st = (c, st1) \<Longrightarrow> length (inp st1) \<le> length (inp st)"
  by (auto simp: recv1_def split: list.splits)

lemma read_until_length: "read_until st limit = (r, st1) \<Longrightarrow> length (inp st1) \<le> length (inp st)"
  by (auto simp: read_until_def split: prod.splits dest: read_until_loop_length)

lemma inp_sendall [simp]: "inp (sendall st s) = inp st"
  by (simp add: sendall_def)

lemma read_packet_length:
  assumes "read_packet st = (r, st1)"
  shows "length (inp st1) \<le> length (inp st)"
proof -
  obtain pkt s1 where a: "read_until st (CHR ''#'') = (pkt, s1)" by fastforce
  obtain c1 s2 where b: "recv1 s1 = (c1, s2)" by fastforce
  obtain c2 s3 where c: "recv1 s2 = (c2, s3)" by fastforce
  have "length (inp s3) \<le> length (inp st)"
    using read_until_length [OF a] recv1_length [OF b] recv1_length [OF c] by linarith
  moreover have "inp st1 = inp s3"
    using assms a b c
    by (auto simp: read_packet_def send_ack_def split: if_splits sum.splits)
  ultimately show ?thesis by simp
qed

text \<open>
  What one pass through the chain does, read off its branches: a packet that starts
  with \<open>G\<close> either raises what \<open>decode_bytes\<close> raises, with the state untouched, or
  stores the decoded bytes as \<open>regs\<close> and replies; every other packet either raises with
  the state untouched or sends one reply and changes nothing else.
\<close>

definition dispatched :: "state \<Rightarrow> string \<Rightarrow> py_error option \<times> state \<Rightarrow> bool" where
  "dispatched st pkt res =
     (if pkt \<noteq> [] \<and> hd pkt = CHR ''G''
      then (case decode_bytes (tl pkt) of
              Inl e \<Rightarrow> res = (Some e, st)
            | Inr bs \<Rightarrow> res = (None, send_str (st\<lparr>regs := bs\<rparr>) ''OK''))
      else (\<exists>e. res = (Some e, st)) \<or> (\<exists>s. res = (None, send_str st s)))"

lemma dispatched_reply: "\<not> (pkt \<noteq> [] \<and> hd pkt = CHR ''G'') \<Longrightarrow> dispatched st pkt (None, send_str st s)"
  by (auto simp: dispatched_def)

lemma dispatched_raise: "\<not> (pkt \<noteq> [] \<and> hd pkt = CHR ''G'') \<Longrightarrow> dispatched st pkt (Some e, st)"
  by (auto simp: dispatched_def)

lemma dispatched_G:
  "pkt \<noteq> [] \<Longrightarrow> hd pkt = CHR ''G'' \<Longrightarrow>
   dispatched st pkt (case decode_bytes (tl pkt) of
           Inl e \<Rightarrow> (Some e, st)
         | Inr bs \<Rightarrow> (None, send_str (st\<lparr>regs := bs\<rparr>) ''OK''))"
  by (auto simp: dispatched_def split: sum.splits)

lemma dispatched_m:
  "\<not> (pkt \<noteq> [] \<and> hd pkt = CHR ''G'') \<Longrightarrow>
   dispatched st pkt (case split_on (CHR '','') xs of
           [addr, sz] \<Rightarrow>
             (case py_int16 addr of
                Inl e \<Rightarrow> (Some e, st)
              | Inr a \<Rightarrow>
                  (case py_int16 sz of
                     Inl e \<Rightarrow> (Some e, st)
                   | Inr n \<Rightarrow>
                       (case read pf (mem st) a n of
                          Inl e \<Rightarrow> (Some e, st)
                        | Inr bs \<Rightarrow> (None, send_str st (encode_bytes bs)))))
         | _ \<Rightarrow> (Some ValueError, st))"
  by (auto simp: dispatched_def split: list.splits sum.splits)

lemma dispatch_dispatched: "dispatched st pkt (dispatch pf st pkt)"
  unfolding dispatch_def
  by (simp add: dispatched_reply dispatched_raise dispatched_G dispatched_m)

lemma dispatch_inp: "dispatch pf st pkt = (r, st1) \<Longrightarrow> inp st1 = inp st"
  using dispatch_dispatched [of st pkt pf]
  by (auto simp: dispatched_def send_str_def sendall_def split: if_splits sum.splits)

text \<open>
  The \<open>while\<close> loop of \<open>handle\<close>. Every iteration that goes on has consumed at least one
  byte of the input, so the loop ends on every finite input.
\<close>

function handle_loop :: "platform \<Rightarrow> state \<Rightarrow> outcome \<times> state" where
  "handle_loop pf st =
     (case expect_packet_start st of
        (False, st1) \<Rightarrow> (Closed, st1)
      | (True, st1) \<Rightarrow>
          (case read_packet st1 of
             (Inl e, st2) \<Rightarrow> (Raised e, st2)
           | (Inr pkt, st2) \<Rightarrow>
               (case dispatch pf st2 pkt of
                  (Some e, st3) \<Rightarrow> (Raised e, st3)
                | (None, st3) \<Rightarrow> handle_loop pf st3)))"
  by pat_completeness auto
termination
proof (relation "measure (\<lambda>(pf, st). length (inp st))")
  show "wf (measure (\<lambda>(pf, st). length (inp st)))" by simp
next
  fix st st1 st2 st3 :: state and pf :: platform and x r pkt d
  assume a: "(x, st1) = expect_packet_start st" "x = True"
    and b: "(r, st2) = read_packet st1" "r = Inr pkt"
    and c: "(d, st3) = dispatch pf st2 pkt" "d = None"
  have "length (inp st1) < length (inp st)"
    using a expect_packet_start_consumes [of st st1] by simp
  moreover have "length (inp st2) \<le> length (inp st1)"
    using b read_packet_length [of st1 r st2] by simp
  moreover have "inp st3 = inp st2"
    using c dispatch_inp [of pf st2 pkt d st3] by simp
  ultimately show "((pf, st3), (pf, st)) \<in> measure (\<lambda>(pf, st). length (inp st))" by simp
qed

declare handle_loop.simps [simp del]


subsection \<open>Notions used to state the properties\<close>

text \<open>A region contains an address; a region is as long as its buffer (every region the
  program builds is: \<open>(addr, addr + len(data), data)\<close>).\<close>

definition contains :: "region \<Rightarrow> int \<Rightarrow> bool" where
  "contains r addr = (case r of (base, endd, data) \<Rightarrow> addr \<ge> base \<and> addr < endd)"

definition wf_region :: "region \<Rightarrow> bool" where
  "wf_region r = (case r of (base, endd, data) \<Rightarrow> endd = base + int (length data))"

text \<open>The commands the dispatch chain has a branch for, and the strings that are a framed
  response; \<open>sent_ok a b\<close>: from state \<open>a\<close> to state \<open>b\<close> only acknowledgments and framed
  responses were sent.\<close>

definition recognized :: "string \<Rightarrow> bool" where
  "recognized pkt =
     (pkt = ''?'' \<or> pkt = ''g'' \<or> (pkt \<noteq> [] \<and> (hd pkt = CHR ''G'' \<or> hd pkt = CHR ''m'')) \<or>
      startswith pkt ''Hg'' \<or> startswith pkt ''Hc-1'' \<or> pkt = ''qC'' \<or>
      pkt = ''qTStatus'' \<or> pkt = ''qOffsets'' \<or> startswith pkt ''qSupported'' \<or>
      pkt = ''qAttached'' \<or> pkt = ''qSymbol::'')"

definition is_response :: "string \<Rightarrow> bool" where
  "is_response x = (\<exists>s. x = frame s)"

definition sent_ok :: "state \<Rightarrow> state \<Rightarrow> bool" where
  "sent_ok a b = (\<exists>new. out b = out a @ new \<and> list_all (\<lambda>x. x = ''+'' \<or> is_response x) new)"

text \<open>\<open>last_before f pat limit p\<close>: \<open>p\<close> is the last place where \<open>pat\<close> stands in \<open>f\<close> and ends
  at or before \<open>limit\<close>. \<open>two_dumps\<close> is a log with two dumps.\<close>

definition last_before :: "string \<Rightarrow> string \<Rightarrow> nat \<Rightarrow> nat \<Rightarrow> bool" where
  "last_before f pat limit p =
     (occurs_at f pat p \<and> p + length pat \<le> limit \<and>
      (\<forall>q. occurs_at f pat q \<and> q + length pat \<le> limit \<longrightarrow> q \<le> p))"

definition two_dumps :: string where
  "two_dumps = ''a'' @ START_DELIM @ ''{1}'' @ END_DELIM @ ''bc'' @ START_DELIM @ ''{2}'' @ [CHR 0x0A]
     @ END_DELIM @ [CHR 0x0A]"

text \<open>A 64-bit build with room for strings of up to \<open>2 ^ 32\<close> bytes, for the examples.\<close>

definition platform64 :: platform where
  "platform64 = \<lparr>maxsize = 2 ^ 63 - 1, avail = 2 ^ 32\<rparr>"

text \<open>The items of a dump that \<open>_map_core\<close> does not pass over.\<close>

definition region_entry :: "string \<times> json \<Rightarrow> bool" where
  "region_entry kv = (case snd kv of JDict d \<Rightarrow> fst kv \<noteq> ''REGS'' | _ \<Rightarrow> False)"

text \<open>
  An example environment. \<open>good_json\<close> is a dump with the registers, an entry \<open>dram\<close>
  whose value is a bare payload instead of an object, and a region \<open>iram\<close> of two bytes
  that lies inside the range of the \<open>iram\<close> firmware file; \<open>bad_json\<close> is a dump with one
  good region and three malformed ones. The two library functions are given on these
  texts and payloads only, with the values the Python functions have there.
\<close>

definition good_json :: string where
  \<open>good_json = ''{"REGS":{"data":"cnI="},"dram":"YWJjZA==","iram":{"addr":1074790402,"data":"YWI="}}''\<close>

definition good_items :: "(string \<times> json) list" where
  "good_items =
     [(''REGS'', JDict [(''data'', JStr ''cnI='')]),
      (''dram'', JStr ''YWJjZA==''),
      (''iram'', JDict [(''addr'', JInt 1074790402), (''data'', JStr ''YWI='')])]"

definition bad_json :: string where
  \<open>bad_json = ''{"REGS":{"data":"cnI="},"ok":{"addr":16,"data":"YWI="},"a":{"addr":32},"b":{"data":"YWI="},"c":{"addr":48,"data":"YWI"}}''\<close>

definition bad_items :: "(string \<times> json) list" where
  "bad_items =
     [(''REGS'', JDict [(''data'', JStr ''cnI='')]),
      (''ok'', JDict [(''addr'', JInt 16), (''data'', JStr ''YWI='')]),
      (''a'', JDict [(''addr'', JInt 32)]),
      (''b'', JDict [(''data'', JStr ''YWI='')]),
      (''c'', JDict [(''addr'', JInt 48), (''data'', JStr ''YWI'')])]"

definition example_log :: "string \<Rightarrow> bytes" where
  "example_log text =
     ''boot'' @ [CHR 0x0A] @ START_DELIM @ [CHR 0x0A] @ text @ [CHR 0x0A] @ END_DELIM @ [CHR 0x0A]"

definition example_loads :: "string \<Rightarrow> py_error + json" where
  "example_loads text =
     (if text = good_json then Inr (JDict good_items)
      else if text = bad_json then Inr (JDict bad_items)
      else Inl ValueError)"

definition example_decodestring :: "json \<Rightarrow> py_error + bytes" where
  "example_decodestring v =
     (case v of
        JStr s \<Rightarrow>
          if s = ''cnI='' then Inr ''rr''
          else if s = ''YWI='' then Inr ''ab''
          else if s = ''YWJjZA=='' then Inr ''abcd''
          else Inl BinasciiError
      | _ \<Rightarrow> Inl TypeError)"

definition example_files :: "string \<Rightarrow> bytes option" where
  "example_files name =
     (if name = ''good.log'' then Some (example_log good_json)
      else if name = ''bad.log'' then Some (example_log bad_json)
      else if name = ''fw/0x00000.bin'' then Some ''WXYZ''
      else if name = ''fw/11000.bin'' then Some [CHR 0xEA, CHR 0x04, CHR ''i'']
      else if name = ''fw/empty/11000'' then Some []
      else if name = ''rom.bin'' then Some ''R''
      else None)"

definition example_env :: "string \<Rightarrow> env" where
  "example_env logname =
     \<lparr>files = example_files, json_loads = example_loads, decodestring = example_decodestring,
      iram = ''fw/0x00000.bin'', iram_addr = None,
      irom = ''fw/11000.bin'', irom_addr = None,
      rom = Some ''rom.bin'', rom_addr = ROM_BASE, log = logname\<rparr>"

section \<open>Properties\<close>

subsection \<open>The payload encodings\<close>

lemma hex_digits_all:
  "list_all (\<lambda>n. hex_val (hex_digit n) = Some n \<and> is_lower_hex (hex_digit n)) [0..<16]"
  by code_simp
lemma lower_hex_all:
  "list_all (\<lambda>c. list_ex (\<lambda>n. hex_val c = Some n \<and> hex_digit n = c) [0..<16]) ''0123456789abcdef''"
  by code_simp
lemma hex_val_digit: "n < 16 \<Longrightarrow> hex_val (hex_digit n) = Some n"
  using hex_digits_all by (simp add: list_all_iff)
lemma hex_digit_lower: "n < 16 \<Longrightarrow> is_lower_hex (hex_digit n)"
  using hex_digits_all by (simp add: list_all_iff)
lemma hex_digit_val: "is_lower_hex c \<Longrightarrow> \<exists>n<16. hex_val c = Some n \<and> hex_digit n = c"
  using lower_hex_all unfolding list_all_iff list_ex_iff is_lower_hex_def by fastforce
lemma to_hex_digit: "n < 16 \<Longrightarrow> to_hex n = [hex_digit n]"
  by (subst to_hex.simps) simp

lemma to_hex_two:
  assumes "16 \<le> n" "n < 256"
  shows "to_hex n = [hex_digit (n div 16), hex_digit (n mod 16)]"
proof -
  have "n div 16 < 16" using assms(2) by linarith
  then have "to_hex (n div 16) = [hex_digit (n div 16)]" by (rule to_hex_digit)
  moreover have "to_hex n = to_hex (n div 16) @ [hex_digit (n mod 16)]"
    using assms(1) by (subst to_hex.simps) simp
  ultimately show ?thesis by simp
qed

lemma fmt_02x_small:
  assumes "n < 256"
  shows "fmt_02x n = [hex_digit (n div 16), hex_digit (n mod 16)]"
proof (cases "n < 16")
  case True
  have "hex_digit 0 = CHR ''0''" by (simp add: hex_digit_def)
  then show ?thesis using True by (simp add: fmt_02x_def to_hex_digit)
next
  case False
  then show ?thesis using assms by (simp add: fmt_02x_def to_hex_two)
qed

lemma fmt_02x_of_char: "fmt_02x (of_char c) = [hex_digit (of_char c div 16), hex_digit (of_char c mod 16)]"
  by (rule fmt_02x_small) simp

lemma decode_encode: "decode_bytes (encode_bytes bs) = Inr bs"
proof (induction bs)
  case Nil
  show ?case by (simp add: encode_bytes_def)
next
  case (Cons c bs)
  let ?n = "of_char c :: nat"
  have n: "?n < 256" by simp
  have "?n div 16 < 16" using n by linarith
  then have hi: "hex_val (hex_digit (?n div 16)) = Some (?n div 16)"
    by (rule hex_val_digit)
  have lo: "hex_val (hex_digit (?n mod 16)) = Some (?n mod 16)"
    by (rule hex_val_digit) simp
  have enc: "encode_bytes (c # bs) = hex_digit (?n div 16) # hex_digit (?n mod 16) # encode_bytes bs"
    by (simp add: encode_bytes_def fmt_02x_of_char)
  have rebuilt: "char_of (16 * (?n div 16) + ?n mod 16) = c"
    by simp
  show ?case
    unfolding enc using Cons.IH hi lo rebuilt by simp
qed

lemma encode_decode:
  "even (length h) \<Longrightarrow> list_all is_lower_hex h \<Longrightarrow>
   \<exists>bs. decode_bytes h = Inr bs \<and> encode_bytes bs = h"
proof (induction h rule: induct_list012)
  case 1
  show ?case by (simp add: encode_bytes_def)
next
  case (2 a)
  then show ?case by simp
next
  case (3 a b rest)
  have ev: "even (length rest)" using "3.prems"(1) by simp
  have lr: "list_all is_lower_hex rest" using "3.prems"(2) by simp
  have la: "is_lower_hex a" using "3.prems"(2) by simp
  have lb: "is_lower_hex b" using "3.prems"(2) by simp
  from hex_digit_val [OF la] obtain x where x: "x < 16" "hex_val a = Some x" "hex_digit x = a" by blast
  from hex_digit_val [OF lb] obtain y where y: "y < 16" "hex_val b = Some y" "hex_digit y = b" by blast
  from "3.IH"(1) [OF ev lr] obtain bs where bs: "decode_bytes rest = Inr bs" "encode_bytes bs = rest" by blast
  have small: "16 * x + y < 256" using x(1) y(1) by linarith
  have dv: "(16 * x + y) div 16 = x" using y(1) by simp
  have md: "(16 * x + y) mod 16 = y" using y(1) by simp
  have oc: "(of_char (char_of (16 * x + y)) :: nat) = 16 * x + y"
    using small by simp
  have "fmt_02x (16 * x + y) = [a, b]"
    unfolding fmt_02x_small [OF small] dv md x(3) y(3) ..
  then have "encode_bytes (char_of (16 * x + y) # bs) = a # b # rest"
    using bs(2) oc by (simp add: encode_bytes_def)
  moreover have "decode_bytes (a # b # rest) = Inr (char_of (16 * x + y) # bs)"
    by (simp add: x(2) y(2) bs(1))
  ultimately show ?case by blast
qed

text \<open>
  Claim C8. \<open>encode_bytes\<close> and \<open>decode_bytes\<close> are inverse to each other: decoding the
  encoding of any byte string gives the byte string back, and every string of
  lowercase hexadecimal digits of even length decodes to a byte string whose encoding is
  that string.
\<close>

theorem encode_decode_inverse:
  "decode_bytes (encode_bytes bs) = Inr bs \<and>
   (even (length h) \<and> list_all is_lower_hex h \<longrightarrow>
      (\<exists>bs'. decode_bytes h = Inr bs' \<and> encode_bytes bs' = h))"
  using decode_encode encode_decode by blast

theorem encode_decode_inverse_witness:
  "decode_bytes (encode_bytes [CHR 0xEA, CHR 0x04, CHR ''a'']) = Inr [CHR 0xEA, CHR 0x04, CHR ''a''] \<and>
   even (length ''ea0461'') \<and> list_all is_lower_hex ''ea0461'' \<and>
   (\<exists>bs'. decode_bytes ''ea0461'' = Inr bs' \<and> encode_bytes bs' = ''ea0461'')"
  using encode_decode_inverse [of "[CHR 0xEA, CHR 0x04, CHR ''a'']" "''ea0461''"]
  by (simp add: is_lower_hex_def)

subsection \<open>Reading the memory map\<close>

lemma read_skip: "list_all (\<lambda>r. \<not> contains r addr) pre \<Longrightarrow> read pf (pre @ m) addr sz = read pf m addr sz"
  by (induction pre) (auto simp: contains_def split: prod.splits)

lemma read_unmapped: "list_all (\<lambda>r. \<not> contains r addr) m \<Longrightarrow> read pf m addr sz = zero_bytes pf sz"
  by (induction m) (auto simp: contains_def split: prod.splits)

lemma read_hit: "contains (b, e, d) addr \<Longrightarrow> read pf ((b, e, d) # post) addr sz = Inr (py_slice d (addr - b) (addr - b + sz))"
  by (simp add: contains_def)

lemma py_slice_inside:
  "0 \<le> i \<Longrightarrow> 0 \<le> n \<Longrightarrow> i \<le> int (length xs) \<Longrightarrow> py_slice xs i (i + n) = take (nat n) (drop (nat i) xs)"
  by (auto simp: py_slice_def Let_def min_def)

lemma read_first:
  assumes "list_all (\<lambda>r. \<not> contains r addr) pre" "contains (b, e, d) addr" "wf_region (b, e, d)" "0 \<le> sz"
  shows "read pf (pre @ (b, e, d) # post) addr sz = Inr (take (nat sz) (drop (nat (addr - b)) d))"
proof -
  have "0 \<le> addr - b" "addr - b \<le> int (length d)"
    using assms(2,3) by (auto simp: contains_def wf_region_def)
  then have "py_slice d (addr - b) (addr - b + sz) = take (nat sz) (drop (nat (addr - b)) d)"
    using assms(4) by (simp add: py_slice_inside)
  then show ?thesis
    by (simp only: read_skip [OF assms(1)] read_hit [OF assms(2)])
qed

text \<open>
  Claim C1, as amended. A request with \<open>size \<ge> 0\<close> whose start address lies in a mapped
  region is answered from the first such region in insertion order with the bytes of its
  buffer from offset \<open>addr - base\<close> on: exactly \<open>size\<close> of them when the request ends
  inside that region, and only those up to the end of the region when it does not. A
  request whose start address lies in no region is answered with \<open>size\<close> zero bytes as
  long as the process can allocate them; a larger \<open>size\<close> raises \<open>MemoryError\<close> or,
  beyond the index range, \<open>OverflowError\<close>.
\<close>

theorem read_first_region:
  "(list_all (\<lambda>r. \<not> contains r addr) pre \<and> contains (b, e, d) addr \<and> wf_region (b, e, d) \<and> 0 \<le> sz \<longrightarrow>
      read pf (pre @ (b, e, d) # post) addr sz = Inr (take (nat sz) (drop (nat (addr - b)) d)) \<and>
      (addr + sz \<le> e \<longrightarrow> length (take (nat sz) (drop (nat (addr - b)) d)) = nat sz) \<and>
      (addr + sz > e \<longrightarrow> take (nat sz) (drop (nat (addr - b)) d) = drop (nat (addr - b)) d \<and>
                         length (drop (nat (addr - b)) d) = nat (e - addr))) \<and>
   (list_all (\<lambda>r. \<not> contains r addr) m \<and> 0 \<le> sz \<and> sz \<le> avail pf \<and> avail pf \<le> maxsize pf \<longrightarrow>
      read pf m addr sz = Inr (replicate (nat sz) (CHR 0x00)) \<and>
      length (replicate (nat sz) (CHR 0x00)) = nat sz) \<and>
   (list_all (\<lambda>r. \<not> contains r addr) m \<and> maxsize pf < sz \<longrightarrow>
      read pf m addr sz = Inl OverflowError) \<and>
   (list_all (\<lambda>r. \<not> contains r addr) m \<and> 0 \<le> sz \<and> sz \<le> maxsize pf \<and> avail pf < sz \<longrightarrow>
      read pf m addr sz = Inl MemoryError)"
proof -
  have A: "read pf (pre @ (b, e, d) # post) addr sz = Inr (take (nat sz) (drop (nat (addr - b)) d))"
     and B: "addr + sz \<le> e \<longrightarrow> length (take (nat sz) (drop (nat (addr - b)) d)) = nat sz"
     and C: "addr + sz > e \<longrightarrow> take (nat sz) (drop (nat (addr - b)) d) = drop (nat (addr - b)) d \<and>
                         length (drop (nat (addr - b)) d) = nat (e - addr)"
    if h: "list_all (\<lambda>r. \<not> contains r addr) pre" "contains (b, e, d) addr" "wf_region (b, e, d)" "0 \<le> sz"
  proof -
    show "read pf (pre @ (b, e, d) # post) addr sz = Inr (take (nat sz) (drop (nat (addr - b)) d))"
      using h by (rule read_first)
    have bounds: "b \<le> addr" "addr < e" "e = b + int (length d)"
      using h(2,3) by (auto simp: contains_def wf_region_def)
    show "addr + sz \<le> e \<longrightarrow> length (take (nat sz) (drop (nat (addr - b)) d)) = nat sz"
      using bounds h(4) by auto
    show "addr + sz > e \<longrightarrow> take (nat sz) (drop (nat (addr - b)) d) = drop (nat (addr - b)) d \<and>
                         length (drop (nat (addr - b)) d) = nat (e - addr)"
      using bounds h(4) by auto
  qed
  have D: "read pf m addr sz = zero_bytes pf sz" if "list_all (\<lambda>r. \<not> contains r addr) m"
    using that by (rule read_unmapped)
  show ?thesis
    using A B C D by (auto simp: zero_bytes_def)
qed

theorem read_first_region_witness:
  "list_all (\<lambda>r. \<not> contains r 18) [(0, 4, ''wxyz'')] \<and> contains (16, 20, ''abcd'') 18 \<and>
   wf_region (16, 20, ''abcd'') \<and>
   read platform64 ([(0, 4, ''wxyz'')] @ (16, 20, ''abcd'') # [(16, 24, ''ABCDEFGH'')]) 18 2 = Inr ''cd'' \<and>
   read platform64 ([(0, 4, ''wxyz'')] @ (16, 20, ''abcd'') # [(16, 24, ''ABCDEFGH'')]) 18 4 = Inr ''cd'' \<and>
   4 \<le> avail platform64 \<and> avail platform64 \<le> maxsize platform64 \<and>
   read platform64 [(0, 4, ''wxyz'')] 18 4 = Inr (replicate 4 (CHR 0x00)) \<and>
   maxsize platform64 < 2 ^ 80 \<and>
   read platform64 [(0, 4, ''wxyz'')] 18 (2 ^ 80) = Inl OverflowError \<and>
   (0::int) \<le> 2 ^ 40 \<and> 2 ^ 40 \<le> maxsize platform64 \<and> avail platform64 < 2 ^ 40 \<and>
   read platform64 [(0, 4, ''wxyz'')] 18 (2 ^ 40) = Inl MemoryError"
  using read_first_region [of 18 "[(0, 4, ''wxyz'')]" 16 20 "''abcd''" 2 platform64 "[(16, 24, ''ABCDEFGH'')]" "[(0, 4, ''wxyz'')]"]
        read_first_region [of 18 "[(0, 4, ''wxyz'')]" 16 20 "''abcd''" 4 platform64 "[(16, 24, ''ABCDEFGH'')]" "[(0, 4, ''wxyz'')]"]
        read_first_region [of 18 "[(0, 4, ''wxyz'')]" 16 20 "''abcd''" "2 ^ 80" platform64 "[(16, 24, ''ABCDEFGH'')]" "[(0, 4, ''wxyz'')]"]
        read_first_region [of 18 "[(0, 4, ''wxyz'')]" 16 20 "''abcd''" "2 ^ 40" platform64 "[(16, 24, ''ABCDEFGH'')]" "[(0, 4, ''wxyz'')]"]
  by (simp add: contains_def wf_region_def platform64_def)

text \<open>
  Claim C1 as stated fails: a request that starts inside a region and ends past it is
  not answered with \<open>size\<close> zero bytes but with the rest of the region.
\<close>

theorem read_straddle_counterexample:
  "contains (16, 20, ''abcd'') 18 \<and> \<not> (18 + 4 \<le> (20::int)) \<and>
   read platform64 [(16, 20, ''abcd'')] 18 4 = Inr ''cd'' \<and>
   read platform64 [(16, 20, ''abcd'')] 18 4 \<noteq> Inr (replicate 4 (CHR 0x00))"
  by (simp add: contains_def py_slice_def eval_nat_numeral)

subsection \<open>The session\<close>

lemma handle_loop_closed:
  "expect_packet_start st = (False, st1) \<Longrightarrow> handle_loop pf st = (Closed, st1)"
  by (subst handle_loop.simps) simp

lemma handle_loop_read_raises:
  "expect_packet_start st = (True, st1) \<Longrightarrow> read_packet st1 = (Inl e, st2) \<Longrightarrow>
   handle_loop pf st = (Raised e, st2)"
  by (subst handle_loop.simps) simp

lemma handle_loop_dispatch_raises:
  "expect_packet_start st = (True, st1) \<Longrightarrow> read_packet st1 = (Inr pkt, st2) \<Longrightarrow>
   dispatch pf st2 pkt = (Some e, st3) \<Longrightarrow> handle_loop pf st = (Raised e, st3)"
  by (subst handle_loop.simps) simp

lemma handle_loop_continues:
  "expect_packet_start st = (True, st1) \<Longrightarrow> read_packet st1 = (Inr pkt, st2) \<Longrightarrow>
   dispatch pf st2 pkt = (None, st3) \<Longrightarrow> handle_loop pf st = handle_loop pf st3"
  by (subst handle_loop.simps) simp

lemma handle_loop_rel:
  assumes tr: "\<And>a b c. R a b \<Longrightarrow> R b c \<Longrightarrow> R a c"
    and ex: "\<And>s r s'. expect_packet_start s = (r, s') \<Longrightarrow> R s s'"
    and rp: "\<And>s r s'. read_packet s = (r, s') \<Longrightarrow> R s s'"
    and di: "\<And>pf s pkt r s'. dispatch pf s pkt = (r, s') \<Longrightarrow> R s s'"
  shows "handle_loop pf st = (oc, st') \<Longrightarrow> R st st'"
proof (induction pf st arbitrary: oc st' rule: handle_loop.induct)
  case (1 pf st)
  obtain x st1 where a: "expect_packet_start st = (x, st1)" by fastforce
  have r1: "R st st1" using ex [OF a] .
  show ?case
  proof (cases x)
    case False
    with a have "handle_loop pf st = (Closed, st1)" by (simp add: handle_loop_closed)
    with "1.prems" r1 show ?thesis by simp
  next
    case True
    then have xT: "x = True" by simp
    obtain r st2 where b: "read_packet st1 = (r, st2)" by fastforce
    have r2: "R st st2" using tr [OF r1 rp [OF b]] .
    show ?thesis
    proof (cases r)
      case (Inl e)
      with a b xT have "handle_loop pf st = (Raised e, st2)" by (simp add: handle_loop_read_raises)
      with "1.prems" r2 show ?thesis by simp
    next
      case (Inr pkt)
      obtain d st3 where c: "dispatch pf st2 pkt = (d, st3)" by fastforce
      have r3: "R st st3" using tr [OF r2 di [OF c]] .
      show ?thesis
      proof (cases d)
        case (Some e)
        with a b c xT Inr have "handle_loop pf st = (Raised e, st3)"
          by (simp add: handle_loop_dispatch_raises)
        with "1.prems" r3 show ?thesis by simp
      next
        case None
        with a b c xT Inr have "handle_loop pf st = handle_loop pf st3"
          by (simp add: handle_loop_continues)
        with "1.prems" have hl: "handle_loop pf st3 = (oc, st')" by simp
        have "R st3 st'"
          using "1.IH" [OF a [symmetric] xT b [symmetric] Inr c [symmetric] None hl] .
        with r3 show ?thesis by (rule tr)
      qed
    qed
  qed
qed

lemma read_until_core:
  "read_until st c = (r, st') \<Longrightarrow> mem st' = mem st \<and> regs st' = regs st \<and> out st' = out st"
  by (auto simp: read_until_def split: prod.splits)

lemma recv1_core:
  "recv1 st = (r, st') \<Longrightarrow> mem st' = mem st \<and> regs st' = regs st \<and> out st' = out st"
  by (auto simp: recv1_def split: list.splits)

lemma expect_packet_start_core:
  "expect_packet_start st = (r, st') \<Longrightarrow> mem st' = mem st \<and> regs st' = regs st \<and> out st' = out st"
  by (auto simp: expect_packet_start_def split: prod.splits dest: read_until_core)

lemma read_packet_core:
  assumes "read_packet st = (r, st')"
  shows "mem st' = mem st \<and> regs st' = regs st \<and>
         (out st' = out st \<or> (out st' = out st @ [''+''] \<and> (\<exists>p. r = Inr p)))"
proof -
  obtain pkt s1 where a: "read_until st (CHR ''#'') = (pkt, s1)" by fastforce
  obtain c1 s2 where b: "recv1 s1 = (c1, s2)" by fastforce
  obtain c2 s3 where c: "recv1 s2 = (c2, s3)" by fastforce
  have s3: "mem s3 = mem st \<and> regs s3 = regs st \<and> out s3 = out st"
    using read_until_core [OF a] recv1_core [OF b] recv1_core [OF c] by simp
  have "st' = s3 \<or> (st' = send_ack s3 \<and> (\<exists>p. r = Inr p))"
    using assms a b c by (auto simp: read_packet_def split: if_splits sum.splits)
  then show ?thesis using s3 by (auto simp: send_ack_def sendall_def)
qed

lemma dispatch_mem: "dispatch pf st pkt = (r, st') \<Longrightarrow> mem st' = mem st"
  using dispatch_dispatched [of st pkt pf]
  by (auto simp: dispatched_def send_str_def sendall_def split: if_splits sum.splits)

lemma dispatch_regs:
  "dispatch pf st pkt = (r, st') \<Longrightarrow>
   regs st' = (if pkt \<noteq> [] \<and> hd pkt = CHR ''G''
               then (case decode_bytes (tl pkt) of Inr bs \<Rightarrow> bs | Inl e \<Rightarrow> regs st)
               else regs st)"
  using dispatch_dispatched [of st pkt pf]
  by (auto simp: dispatched_def send_str_def sendall_def split: if_splits sum.splits)

lemma dispatch_out:
  "dispatch pf st pkt = (r, st') \<Longrightarrow>
   (r \<noteq> None \<and> out st' = out st) \<or> (r = None \<and> (\<exists>s. out st' = out st @ [frame s]))"
  using dispatch_dispatched [of st pkt pf]
  by (auto simp: dispatched_def send_str_def sendall_def split: if_splits sum.splits)

lemma handle_loop_mem:
  assumes "handle_loop pf st = (oc, st')"
  shows "mem st' = mem st"
proof (rule handle_loop_rel [where R = "\<lambda>a b. mem b = mem a", OF _ _ _ _ assms])
  show "\<And>a b c. mem b = mem a \<Longrightarrow> mem c = mem b \<Longrightarrow> mem c = mem a" by simp
  show "\<And>s r s'. expect_packet_start s = (r, s') \<Longrightarrow> mem s' = mem s"
    by (simp add: expect_packet_start_core)
  show "\<And>s r s'. read_packet s = (r, s') \<Longrightarrow> mem s' = mem s"
    by (simp add: read_packet_core)
  show "\<And>pf s pkt r s'. dispatch pf s pkt = (r, s') \<Longrightarrow> mem s' = mem s"
    by (rule dispatch_mem)
qed

lemma sent_ok_trans:
  assumes "sent_ok a b" "sent_ok b c"
  shows "sent_ok a c"
proof -
  from assms(1) obtain n1 where n1: "out b = out a @ n1" "list_all (\<lambda>x. x = ''+'' \<or> is_response x) n1"
    unfolding sent_ok_def by blast
  from assms(2) obtain n2 where n2: "out c = out b @ n2" "list_all (\<lambda>x. x = ''+'' \<or> is_response x) n2"
    unfolding sent_ok_def by blast
  have "out c = out a @ (n1 @ n2)" using n1(1) n2(1) by simp
  moreover have "list_all (\<lambda>x. x = ''+'' \<or> is_response x) (n1 @ n2)" using n1(2) n2(2) by simp
  ultimately show ?thesis unfolding sent_ok_def by blast
qed

lemma sent_ok_same: "out b = out a \<Longrightarrow> sent_ok a b"
  unfolding sent_ok_def by simp

lemma sent_ok_one: "out b = out a @ [x] \<Longrightarrow> x = ''+'' \<or> is_response x \<Longrightarrow> sent_ok a b"
  unfolding sent_ok_def by simp

lemma handle_loop_out:
  assumes "handle_loop pf st = (oc, st')"
  shows "sent_ok st st'"
proof (rule handle_loop_rel [where R = sent_ok, OF _ _ _ _ assms])
  show "\<And>a b c. sent_ok a b \<Longrightarrow> sent_ok b c \<Longrightarrow> sent_ok a c" by (rule sent_ok_trans)
  show "\<And>s r s'. expect_packet_start s = (r, s') \<Longrightarrow> sent_ok s s'"
    by (rule sent_ok_same) (simp add: expect_packet_start_core)
next
  fix s r s' assume "read_packet s = (r, s')"
  from read_packet_core [OF this] have "out s' = out s \<or> out s' = out s @ [''+'']" by blast
  then show "sent_ok s s'"
    using sent_ok_same [of s' s] sent_ok_one [of s' s "''+''"] by blast
next
  fix pf s pkt r s' assume "dispatch pf s pkt = (r, s')"
  from dispatch_out [OF this] have "out s' = out s \<or> (\<exists>x. out s' = out s @ [frame x])" by blast
  then show "sent_ok s s'"
    using sent_ok_same [of s' s] sent_ok_one [of s' s] unfolding is_response_def by blast
qed

lemma checksum_lt: "checksum s < 256"
  by (simp add: checksum_def)

lemma frame_digits:
  "frame s = ''$'' @ s @ ''#'' @ [hex_digit (checksum s div 16), hex_digit (checksum s mod 16)]"
  by (simp add: frame_def fmt_02x_small [OF checksum_lt])

lemma two_digits_value:
  assumes "n < 256"
  shows "hex_value 0 [hex_digit (n div 16), hex_digit (n mod 16)] = Some n"
proof -
  have a: "n div 16 < 16" using assms by linarith
  have b: "n mod 16 < 16" by simp
  show ?thesis by (simp add: hex_val_digit [OF a] hex_val_digit [OF b])
qed

lemma dispatch_unrecognized:
  "pkt \<noteq> [] \<Longrightarrow> \<not> recognized pkt \<Longrightarrow> dispatch pf st pkt = (None, sendall st ''$#00'')"
  by (simp add: dispatch_def recognized_def send_str_def frame_def checksum_def fmt_02x_def
        to_hex.simps hex_digit_def)

text \<open>
  The part of claim C7 that holds. \<open>send_str\<close> sends, as one message, \<open>$\<close>, its
  argument, \<open>#\<close> and two lowercase hexadecimal digits whose value is the sum of the
  bytes of the argument modulo 256. Every reply of the dispatch chain is such a frame,
  and everything a session sends is either such a frame or the acknowledgment \<open>+\<close>. A
  non-empty command that no branch of the chain recognizes (such as \<open>zZZ\<close>) is answered
  with the empty frame \<open>$#00\<close>.
\<close>

theorem responses_framed:
  "send_str st0 s = st0\<lparr>out := out st0 @
      [''$'' @ s @ ''#'' @ [hex_digit (checksum s div 16), hex_digit (checksum s mod 16)]]\<rparr> \<and>
   frame s = ''$'' @ s @ ''#'' @ [hex_digit (checksum s div 16), hex_digit (checksum s mod 16)] \<and>
   checksum s = sum_list (map of_char s) mod 256 \<and>
   is_lower_hex (hex_digit (checksum s div 16)) \<and> is_lower_hex (hex_digit (checksum s mod 16)) \<and>
   hex_value 0 [hex_digit (checksum s div 16), hex_digit (checksum s mod 16)] = Some (checksum s) \<and>
   (dispatch pf st pkt = (None, st1) \<longrightarrow> (\<exists>p. out st1 = out st @ [frame p])) \<and>
   (handle_loop pf st = (oc, st2) \<longrightarrow>
      (\<exists>new. out st2 = out st @ new \<and> list_all (\<lambda>x. x = ''+'' \<or> is_response x) new)) \<and>
   (pkt \<noteq> [] \<and> \<not> recognized pkt \<longrightarrow> dispatch pf st pkt = (None, sendall st ''$#00''))"
proof -
  have c: "checksum s < 256" by (rule checksum_lt)
  then have d: "checksum s div 16 < 16" by linarith
  have e: "checksum s mod 16 < 16" by simp
  have "dispatch pf st pkt = (None, st1) \<longrightarrow> (\<exists>p. out st1 = out st @ [frame p])"
    using dispatch_out [of pf st pkt None st1] by blast
  moreover have "handle_loop pf st = (oc, st2) \<longrightarrow>
      (\<exists>new. out st2 = out st @ new \<and> list_all (\<lambda>x. x = ''+'' \<or> is_response x) new)"
    using handle_loop_out [of pf st oc st2] unfolding sent_ok_def by blast
  moreover have "checksum s = sum_list (map of_char s) mod 256" by (simp add: checksum_def)
  moreover have "send_str st0 s = st0\<lparr>out := out st0 @
      [''$'' @ s @ ''#'' @ [hex_digit (checksum s div 16), hex_digit (checksum s mod 16)]]\<rparr>"
    by (simp only: send_str_def sendall_def frame_digits)
  ultimately show ?thesis
    using frame_digits [of s] hex_digit_lower [OF d] hex_digit_lower [OF e] two_digits_value [OF c]
      dispatch_unrecognized [of pkt pf st]
    by blast
qed

theorem responses_framed_witness:
  "(''zZZ'' \<noteq> [] \<and> \<not> recognized ''zZZ'') \<and>
   dispatch platform64 \<lparr>mem = [], regs = [], inp = ''+$zZZ#2e'', out = []\<rparr> ''zZZ''
     = (None, \<lparr>mem = [], regs = [], inp = ''+$zZZ#2e'', out = [''$#00'']\<rparr>) \<and>
   handle_loop platform64 \<lparr>mem = [], regs = [], inp = ''+$zZZ#2e'', out = []\<rparr>
     = (Closed, \<lparr>mem = [], regs = [], inp = [], out = [''+'', ''$#00'']\<rparr>) \<and>
   (\<exists>p. [''$#00''] = [] @ [frame p]) \<and>
   (\<exists>new. [''+'', ''$#00''] = [] @ new \<and> list_all (\<lambda>x. x = ''+'' \<or> is_response x) new)"
proof -
  let ?S = "\<lparr>mem = [], regs = [], inp = ''+$zZZ#2e'', out = []\<rparr>"
  let ?S1 = "\<lparr>mem = [], regs = [], inp = ''+$zZZ#2e'', out = [''$#00'']\<rparr>"
  let ?S2 = "\<lparr>mem = [], regs = [], inp = [], out = [''+'', ''$#00'']\<rparr>"
  note T = responses_framed [of ?S "[]" platform64 ?S "''zZZ''" ?S1 Closed ?S2]
  have u: "''zZZ'' \<noteq> [] \<and> \<not> recognized ''zZZ''"
    by (simp add: recognized_def startswith_def)
  have "dispatch platform64 ?S ''zZZ'' = (None, sendall ?S ''$#00'')" using T u by blast
  then have d: "dispatch platform64 ?S ''zZZ'' = (None, ?S1)" by (simp add: sendall_def)
  have h: "handle_loop platform64 ?S = (Closed, ?S2)" by code_simp
  have "\<exists>p. out ?S1 = out ?S @ [frame p]" using T d by blast
  then have a: "\<exists>p. [''$#00''] = [] @ [frame p]" by simp
  have "\<exists>new. out ?S2 = out ?S @ new \<and> list_all (\<lambda>x. x = ''+'' \<or> is_response x) new"
    using T h by blast
  then have b: "\<exists>new. [''+'', ''$#00''] = [] @ new \<and> list_all (\<lambda>x. x = ''+'' \<or> is_response x) new"
    by simp
  show ?thesis using u d h a b by blast
qed

text \<open>
  Claim C7 at the empty command, which reaches the session as the well-formed packet
  \<open>$#00\<close>: no branch of the chain recognizes it, and yet it is not answered with the empty
  frame \<open>$#00\<close>. \<open>pkt[0]\<close> raises \<open>IndexError\<close>, the session has sent the acknowledgment
  \<open>+\<close> only, and ends.
\<close>

theorem empty_command_unanswered:
  "\<not> recognized [] \<and>
   dispatch pf st [] = (Some IndexError, st) \<and>
   dispatch pf st [] \<noteq> (None, sendall st ''$#00'') \<and>
   handle_loop pf \<lparr>mem = [], regs = [], inp = ''+$#00'', out = []\<rparr>
     = (Raised IndexError, \<lparr>mem = [], regs = [], inp = [], out = [''+'']\<rparr>)"
proof -
  have r: "\<not> recognized []" by (simp add: recognized_def startswith_def)
  have d: "dispatch pf st [] = (Some IndexError, st)" for st
    by (simp add: dispatch_def)
  have e: "expect_packet_start \<lparr>mem = [], regs = [], inp = ''+$#00'', out = []\<rparr>
      = (True, \<lparr>mem = [], regs = [], inp = ''#00'', out = []\<rparr>)"
    by (simp add: expect_packet_start_def read_until_def)
  have p: "read_packet \<lparr>mem = [], regs = [], inp = ''#00'', out = []\<rparr>
      = (Inr [], \<lparr>mem = [], regs = [], inp = [], out = [''+'']\<rparr>)"
    by code_simp
  have "handle_loop pf \<lparr>mem = [], regs = [], inp = ''+$#00'', out = []\<rparr>
     = (Raised IndexError, \<lparr>mem = [], regs = [], inp = [], out = [''+'']\<rparr>)"
    using e p d by (rule handle_loop_dispatch_raises)
  then show ?thesis using r d by simp
qed

text \<open>
  Claim C9. Dispatching a packet never changes the memory map; it changes the register
  buffer only for a \<open>G\<close> packet whose payload decodes, and then to exactly the decoded
  bytes. Waiting for a packet and reading one change neither, and a whole session ends
  with the memory map it started with.
\<close>

theorem snapshot_frame:
  "(dispatch pf st pkt = (r, st1) \<longrightarrow>
      mem st1 = mem st \<and>
      regs st1 = (if pkt \<noteq> [] \<and> hd pkt = CHR ''G''
                  then (case decode_bytes (tl pkt) of Inr bs \<Rightarrow> bs | Inl e \<Rightarrow> regs st)
                  else regs st)) \<and>
   (expect_packet_start st = (x, st2) \<longrightarrow> mem st2 = mem st \<and> regs st2 = regs st) \<and>
   (read_packet st = (p, st3) \<longrightarrow> mem st3 = mem st \<and> regs st3 = regs st) \<and>
   (handle_loop pf st = (oc, st4) \<longrightarrow> mem st4 = mem st)"
  using dispatch_mem [of pf st pkt r st1] dispatch_regs [of pf st pkt r st1]
    expect_packet_start_core [of st x st2] read_packet_core [of st p st3]
    handle_loop_mem [of pf st oc st4]
  by blast

theorem snapshot_frame_witness:
  "dispatch platform64 \<lparr>mem = [(16, 20, ''abcd'')], regs = ''xy'', inp = [], out = []\<rparr> ''G4142''
     = (None, \<lparr>mem = [(16, 20, ''abcd'')], regs = ''AB'', inp = [], out = [''$OK#9a'']\<rparr>) \<and>
   decode_bytes (tl ''G4142'') = Inr ''AB'' \<and>
   handle_loop platform64 \<lparr>mem = [(16, 20, ''abcd'')], regs = ''xy'', inp = ''+$m10,2#2c+$G4142#12'', out = []\<rparr>
     = (Closed, \<lparr>mem = [(16, 20, ''abcd'')], regs = ''AB'', inp = [],
                 out = [''+'', ''$6162#cf'', ''+'', ''$OK#9a'']\<rparr>) \<and>
   mem \<lparr>mem = [(16, 20, ''abcd'')], regs = ''AB'', inp = [], out = [''$OK#9a'']\<rparr>
     = mem \<lparr>mem = [(16, 20, ''abcd'')], regs = ''xy'', inp = [], out = []\<rparr>"
proof -
  let ?S = "\<lparr>mem = [(16, 20, ''abcd'')], regs = ''xy'', inp = [], out = []\<rparr>"
  let ?S1 = "\<lparr>mem = [(16, 20, ''abcd'')], regs = ''AB'', inp = [], out = [''$OK#9a'']\<rparr>"
  have d: "dispatch platform64 ?S ''G4142'' = (None, ?S1)" by code_simp
  have g: "decode_bytes (tl ''G4142'') = Inr ''AB''" by code_simp
  have h: "handle_loop platform64 \<lparr>mem = [(16, 20, ''abcd'')], regs = ''xy'', inp = ''+$m10,2#2c+$G4142#12'', out = []\<rparr>
     = (Closed, \<lparr>mem = [(16, 20, ''abcd'')], regs = ''AB'', inp = [],
                 out = [''+'', ''$6162#cf'', ''+'', ''$OK#9a'']\<rparr>)" by code_simp
  have "mem ?S1 = mem ?S"
    using snapshot_frame [of platform64 ?S "''G4142''" None ?S1] d by blast
  then show ?thesis using d g h by blast
qed

lemma dispatch_empty: "dispatch pf st [] = (Some IndexError, st)"
  by (simp add: dispatch_def)

lemma py_int16_00: "py_int16 ''00'' = Inr 0"
  by code_simp

lemma read_packet_eof:
  assumes "read_until st (CHR ''#'') = (pkt, st1)" "length (inp st1) < 2"
  shows "fst (read_packet st) = Inr []"
proof (cases "inp st1")
  case Nil
  then show ?thesis using assms(1) by (simp add: read_packet_def recv1_def)
next
  case (Cons c cs)
  then have "cs = []" using assms(2) by simp
  then show ?thesis using assms(1) Cons by (simp add: read_packet_def recv1_def)
qed

lemma read_packet_empty_frame:
  assumes "inp st = ''#00'' @ rest"
  shows "read_packet st = (Inr [], send_ack (st\<lparr>inp := rest\<rparr>))"
proof -
  have "read_until st (CHR ''#'') = ([], st\<lparr>inp := ''00'' @ rest\<rparr>)"
    using assms by (simp add: read_until_def)
  then show ?thesis
    by (simp add: read_packet_def recv1_def py_int16_00 checksum_def)
qed

text \<open>
  The part of claim C10 that holds. On the empty packet the dispatch chain reaches
  \<open>pkt[0]\<close> and raises \<open>IndexError\<close>, which ends the session at that iteration.
  \<open>read_packet\<close> hands the empty packet to the loop when the input ends within the two
  checksum bytes, and for the well-formed wire packet \<open>$#00\<close>, after acknowledging it.
\<close>

theorem empty_packet_raises:
  "dispatch pf st [] = (Some IndexError, st) \<and>
   (expect_packet_start st = (True, st1) \<and> read_packet st1 = (Inr [], st2) \<longrightarrow>
      handle_loop pf st = (Raised IndexError, st2)) \<and>
   (read_until st (CHR ''#'') = (pkt, st3) \<and> length (inp st3) < 2 \<longrightarrow>
      fst (read_packet st) = Inr []) \<and>
   (inp st = ''#00'' @ rest \<longrightarrow> read_packet st = (Inr [], send_ack (st\<lparr>inp := rest\<rparr>)))"
  using dispatch_empty [of pf st] dispatch_empty [of pf st2]
    handle_loop_dispatch_raises [of st st1 "[]" st2 pf IndexError st2]
    read_packet_eof [of st pkt st3] read_packet_empty_frame [of st rest]
  by blast

theorem empty_packet_raises_witness:
  "expect_packet_start \<lparr>mem = [], regs = [], inp = ''+$#00'', out = []\<rparr>
     = (True, \<lparr>mem = [], regs = [], inp = ''#00'', out = []\<rparr>) \<and>
   inp \<lparr>mem = [], regs = [], inp = ''#00'', out = []\<rparr> = ''#00'' @ [] \<and>
   read_packet \<lparr>mem = [], regs = [], inp = ''#00'', out = []\<rparr>
     = (Inr [], \<lparr>mem = [], regs = [], inp = [], out = [''+'']\<rparr>) \<and>
   handle_loop platform64 \<lparr>mem = [], regs = [], inp = ''+$#00'', out = []\<rparr>
     = (Raised IndexError, \<lparr>mem = [], regs = [], inp = [], out = [''+'']\<rparr>) \<and>
   read_until \<lparr>mem = [], regs = [], inp = ''g#6'', out = []\<rparr> (CHR ''#'')
     = (''g'', \<lparr>mem = [], regs = [], inp = ''6'', out = []\<rparr>) \<and>
   length (inp \<lparr>mem = [], regs = [], inp = ''6'', out = []\<rparr>) < 2 \<and>
   fst (read_packet \<lparr>mem = [], regs = [], inp = ''g#6'', out = []\<rparr>) = Inr []"
proof -
  let ?A = "\<lparr>mem = [], regs = [], inp = ''+$#00'', out = []\<rparr>"
  let ?A1 = "\<lparr>mem = [], regs = [], inp = ''#00'', out = []\<rparr>"
  let ?A2 = "\<lparr>mem = [], regs = [], inp = [], out = [''+'']\<rparr>"
  let ?B = "\<lparr>mem = [], regs = [], inp = ''g#6'', out = []\<rparr>"
  let ?B1 = "\<lparr>mem = [], regs = [], inp = ''6'', out = []\<rparr>"
  have e: "expect_packet_start ?A = (True, ?A1)"
    by (simp add: expect_packet_start_def read_until_def)
  have i: "inp ?A1 = ''#00'' @ []" by simp
  have "read_packet ?A1 = (Inr [], send_ack (?A1\<lparr>inp := []\<rparr>))"
    using empty_packet_raises [of platform64 ?A1 ?A1 ?A1 "[]" ?A1 "[]"] i by blast
  then have r: "read_packet ?A1 = (Inr [], ?A2)" by (simp add: send_ack_def sendall_def)
  have h: "handle_loop platform64 ?A = (Raised IndexError, ?A2)"
    using empty_packet_raises [of platform64 ?A ?A1 ?A2 "[]" ?A "[]"] e r by blast
  have u: "read_until ?B (CHR ''#'') = (''g'', ?B1)" by (simp add: read_until_def)
  have l: "length (inp ?B1) < 2" by simp
  have f: "fst (read_packet ?B) = Inr []"
    using empty_packet_raises [of platform64 ?B ?B ?B "''g''" ?B1 "[]"] u l by blast
  show ?thesis using e i r h u l f by blast
qed

text \<open>
  Claim C10 at the input \<open>g#00\<close>, a packet whose checksum should be \<open>67\<close>: on this
  checksum mismatch \<open>read_packet\<close> does not produce the empty packet, it raises
  \<open>ValueError\<close> while formatting its diagnostic, before \<open>send_nack()\<close> and \<open>return ""\<close>.
\<close>

theorem checksum_mismatch_no_empty_packet:
  "py_int16 ''00'' = Inr 0 \<and> int (checksum ''g'') = 103 \<and>
   read_packet \<lparr>mem = [], regs = [], inp = ''g#00'', out = []\<rparr>
     = (Inl ValueError, \<lparr>mem = [], regs = [], inp = [], out = []\<rparr>) \<and>
   fst (read_packet \<lparr>mem = [], regs = [], inp = ''g#00'', out = []\<rparr>) \<noteq> Inr []"
  by (simp add: py_int16_00 read_packet_def read_until_def recv1_def checksum_def)

text \<open>
  Claim C2 at the input \<open>+$g#00\<close>, whose checksum should be \<open>67\<close>: the session sends
  nothing, neither \<open>-\<close> nor anything else, and ends with \<open>ValueError\<close>.
\<close>

theorem checksum_mismatch_raises:
  "handle_loop pf \<lparr>mem = [], regs = [], inp = ''+$g#00'', out = []\<rparr>
     = (Raised ValueError, \<lparr>mem = [], regs = [], inp = [], out = []\<rparr>)"
  by code_simp

subsection \<open>Locating the dump\<close>

lemma rfind_from_none:
  "(\<forall>p\<le>n. \<not> occurs_at data pat p) \<Longrightarrow> rfind_from data pat n = - 1"
  by (induction n) auto

lemma rfind_from_some:
  "q \<le> n \<Longrightarrow> occurs_at data pat q \<Longrightarrow> (\<forall>p. q < p \<and> p \<le> n \<longrightarrow> \<not> occurs_at data pat p) \<Longrightarrow>
   rfind_from data pat n = int q"
proof (induction n)
  case 0
  then show ?case by simp
next
  case (Suc n)
  show ?case
  proof (cases "q = Suc n")
    case True
    then show ?thesis using Suc.prems by simp
  next
    case False
    then have "q \<le> n" using Suc.prems(1) by simp
    moreover have "\<not> occurs_at data pat (Suc n)" using Suc.prems(1,3) False by simp
    ultimately show ?thesis using Suc by simp
  qed
qed

lemma occurs_at_bound: "occurs_at data pat p \<Longrightarrow> p \<le> length data"
  by (simp add: occurs_at_def)

lemma rfind_none: "(\<forall>p. \<not> occurs_at data pat p) \<Longrightarrow> rfind data pat = - 1"
  by (simp add: rfind_def rfind_from_none)

lemma rfind_some:
  assumes "occurs_at data pat q" "\<forall>p. q < p \<longrightarrow> \<not> occurs_at data pat p"
  shows "rfind data pat = int q"
  unfolding rfind_def
  using assms occurs_at_bound [OF assms(1)] by (intro rfind_from_some) auto

lemma rfind_from_cases:
  "(rfind_from data pat n = - 1 \<and> (\<forall>p\<le>n. \<not> occurs_at data pat p)) \<or>
   (\<exists>q\<le>n. rfind_from data pat n = int q \<and> occurs_at data pat q \<and>
      (\<forall>p. q < p \<and> p \<le> n \<longrightarrow> \<not> occurs_at data pat p))"
proof (induction n)
  case 0
  then show ?case by auto
next
  case (Suc n)
  show ?case
  proof (cases "occurs_at data pat (Suc n)")
    case True
    then show ?thesis by auto
  next
    case False
    then have e: "rfind_from data pat (Suc n) = rfind_from data pat n" by simp
    from Suc.IH show ?thesis
    proof
      assume "rfind_from data pat n = - 1 \<and> (\<forall>p\<le>n. \<not> occurs_at data pat p)"
      then show ?thesis using False e by (auto simp: le_Suc_eq)
    next
      assume "\<exists>q\<le>n. rfind_from data pat n = int q \<and> occurs_at data pat q \<and>
        (\<forall>p. q < p \<and> p \<le> n \<longrightarrow> \<not> occurs_at data pat p)"
      then obtain q where q: "q \<le> n" "rfind_from data pat n = int q" "occurs_at data pat q"
        "\<forall>p. q < p \<and> p \<le> n \<longrightarrow> \<not> occurs_at data pat p" by blast
      have "\<forall>p. q < p \<and> p \<le> Suc n \<longrightarrow> \<not> occurs_at data pat p"
        using q(4) False by (auto simp: le_Suc_eq)
      then show ?thesis using q(1,2,3) e by (intro disjI2 exI [of _ q]) simp
    qed
  qed
qed

lemma rfind_cases:
  "(rfind data pat = - 1 \<and> (\<forall>p. \<not> occurs_at data pat p)) \<or>
   (\<exists>q. rfind data pat = int q \<and> occurs_at data pat q \<and> (\<forall>p. q < p \<longrightarrow> \<not> occurs_at data pat p))"
  using rfind_from_cases [of data pat "length data"] occurs_at_bound [of data pat]
  unfolding rfind_def by (meson not_le)

lemma occurs_at_window:
  assumes "pat \<noteq> []"
  shows "occurs_at (take n (drop off f)) pat p \<longleftrightarrow> occurs_at f pat (off + p) \<and> p + length pat \<le> n"
proof -
  have t: "take (length pat) (drop p (take n (drop off f))) = take (length pat) (drop (off + p) f)"
    if "p + length pat \<le> n"
  proof -
    have "drop p (take n (drop off f)) = take (n - p) (drop (p + off) f)"
      by (simp add: drop_take)
    moreover have "min (length pat) (n - p) = length pat" using that by simp
    ultimately show ?thesis by (simp add: add.commute)
  qed
  have pos: "length pat > 0" using assms by simp
  have ar: "\<And>L m. (0::nat) < L \<Longrightarrow> (p + L \<le> min (m - off) n) = (off + p + L \<le> m \<and> p + L \<le> n)"
    by arith
  have l: "p + length pat \<le> length (take n (drop off f)) \<longleftrightarrow>
           off + p + length pat \<le> length f \<and> p + length pat \<le> n"
    using ar [OF pos, of "length f"] by simp
  show ?thesis
    unfolding occurs_at_def l using t by auto
qed

lemma last_before_rfind:
  assumes "pat \<noteq> []"
  shows "rfind (take limit f) pat = int p \<longleftrightarrow> last_before f pat limit p"
proof -
  have w: "\<And>q. occurs_at (take limit f) pat q \<longleftrightarrow> occurs_at f pat q \<and> q + length pat \<le> limit"
    using occurs_at_window [OF assms, of limit 0 f] by simp
  show ?thesis
  proof
    assume r: "rfind (take limit f) pat = int p"
    from rfind_cases [of "take limit f" pat] r
    have "occurs_at (take limit f) pat p \<and> (\<forall>q. p < q \<longrightarrow> \<not> occurs_at (take limit f) pat q)"
      by auto
    then show "last_before f pat limit p"
      unfolding last_before_def w by (meson not_le)
  next
    assume "last_before f pat limit p"
    then have "occurs_at (take limit f) pat p" "\<forall>q. p < q \<longrightarrow> \<not> occurs_at (take limit f) pat q"
      unfolding last_before_def w by auto
    then show "rfind (take limit f) pat = int p" by (rule rfind_some)
  qed
qed

lemma search_loop_rfind:
  "0 \<le> s \<Longrightarrow> o0 \<le> s \<Longrightarrow> pat \<noteq> [] \<Longrightarrow> length pat \<le> 5001 \<Longrightarrow>
   (\<forall>p. occurs_at f pat p \<and> int p + int (length pat) \<le> s \<longrightarrow> int p + int (length pat) \<le> o0) \<Longrightarrow>
   search_loop f s pat o0 = rfind (take (nat s) f) pat"
proof (induction f s pat o0 rule: search_loop.induct)
  case (1 f s pat o0)
  define offset where "offset = max 0 (o0 - 10000)"
  define n where "n = min 10000 s"
  define data where "data = file_read f offset n"
  note s0 = "1.prems"(1) and os = "1.prems"(2) and ne = "1.prems"(3) and sm = "1.prems"(4)
    and inv = "1.prems"(5)
  have n0: "0 \<le> n" and off0: "0 \<le> offset" using s0 by (simp_all add: n_def offset_def)
  have data_eq: "data = take (nat n) (drop (nat offset) f)"
    using n0 by (simp add: data_def file_read_def)
  have win: "occurs_at data pat q \<longleftrightarrow> occurs_at f pat (nat offset + q) \<and> q + length pat \<le> nat n" for q
    unfolding data_eq by (rule occurs_at_window [OF ne])
  have hi: "o0 \<le> offset + n" using os by (simp add: offset_def n_def)
  have lo: "offset + n \<le> s" using os s0 by (simp add: offset_def n_def)
  have inwin: "occurs_at data pat (p - nat offset)"
    if "occurs_at f pat p" "int p + int (length pat) \<le> s" "offset \<le> int p" for p
  proof -
    have "int p + int (length pat) \<le> offset + n" using inv that(1,2) hi by force
    then have "(p - nat offset) + length pat \<le> nat n" using that(3) off0 by linarith
    moreover have "nat offset + (p - nat offset) = p" using that(3) off0 by linarith
    ultimately show ?thesis using that(1) by (simp add: win)
  qed
  have unf: "search_loop f s pat o0 =
      (if rfind data pat \<ge> 0 then offset + rfind data pat
       else if offset = 0 then - 1 else search_loop f s pat (offset + 5000))"
    by (subst search_loop.simps) (simp add: Let_def offset_def n_def data_def)
  have wT: "occurs_at (take (nat s) f) pat q \<longleftrightarrow> occurs_at f pat q \<and> q + length pat \<le> nat s" for q
    using occurs_at_window [OF ne, of "nat s" 0 f q] by simp
  from rfind_cases [of data pat] show ?case
  proof (elim disjE conjE exE)
    assume r: "rfind data pat = - 1" and none: "\<forall>p. \<not> occurs_at data pat p"
    have below: "int p < offset" if "occurs_at f pat p" "int p + int (length pat) \<le> s" for p
      using inwin [OF that] none by force
    show ?thesis
    proof (cases "offset = 0")
      case True
      have "\<forall>q. \<not> occurs_at (take (nat s) f) pat q"
      proof (intro allI notI)
        fix q assume "occurs_at (take (nat s) f) pat q"
        then have "occurs_at f pat q" "int q + int (length pat) \<le> s" using wT s0 by auto
        from below [OF this] True show False by simp
      qed
      then have "rfind (take (nat s) f) pat = - 1" by (rule rfind_none)
      then show ?thesis using unf r True by simp
    next
      case False
      have inv': "\<forall>p. occurs_at f pat p \<and> int p + int (length pat) \<le> s \<longrightarrow>
                   int p + int (length pat) \<le> offset + 5000"
        using below sm by force
      have os': "offset + 5000 \<le> s" using False os off0 by (simp add: offset_def split: if_splits)
      have "search_loop f s pat (offset + 5000) = rfind (take (nat s) f) pat"
        using "1.IH" [OF offset_def data_def [unfolded n_def] refl _ False s0 os' ne sm inv'] r
        by simp
      then show ?thesis using unf r False by simp
    qed
  next
    fix q assume r: "rfind data pat = int q" and occ: "occurs_at data pat q"
      and mx: "\<forall>p. q < p \<longrightarrow> \<not> occurs_at data pat p"
    have a: "occurs_at f pat (nat offset + q)" and b: "q + length pat \<le> nat n"
      using occ win by auto
    have c: "nat offset + q + length pat \<le> nat s" using b lo off0 n0 by linarith
    have 1: "occurs_at (take (nat s) f) pat (nat offset + q)" using a c wT by simp
    have 2: "\<forall>p. nat offset + q < p \<longrightarrow> \<not> occurs_at (take (nat s) f) pat p"
    proof (intro allI impI notI)
      fix p assume gt: "nat offset + q < p" and o: "occurs_at (take (nat s) f) pat p"
      have "occurs_at f pat p" "int p + int (length pat) \<le> s" using o wT s0 by auto
      moreover have "offset \<le> int p" using gt off0 by linarith
      ultimately have "occurs_at data pat (p - nat offset)" by (rule inwin)
      moreover have "q < p - nat offset" using gt by linarith
      ultimately show False using mx by blast
    qed
    have "rfind (take (nat s) f) pat = int (nat offset + q)" using 1 2 by (rule rfind_some)
    then show ?thesis using unf r off0 by simp
  qed
qed

lemma search_backwards_rfind:
  assumes "0 \<le> s" "pat \<noteq> []" "length pat \<le> 5001"
  shows "search_backwards f s pat = rfind (take (nat s) f) pat"
  unfolding search_backwards_def
  using assms by (intro search_loop_rfind) auto

lemma delim_lengths: "length START_DELIM = 23" "length END_DELIM = 23" "START_DELIM \<noteq> []" "END_DELIM \<noteq> []"
  by (simp_all add: START_DELIM_def END_DELIM_def)

lemma read_core_json_last:
  assumes e: "last_before f END_DELIM (length f) e" and s: "last_before f START_DELIM e s"
  shows "read_core_json f =
     Inr (filter (\<lambda>c. c \<noteq> CHR 0x0D) (filter (\<lambda>c. c \<noteq> CHR 0x0A) (take (e - (s + 23)) (drop (s + 23) f))))"
proof -
  have "rfind (take (length f) f) END_DELIM = int e"
    using e by (simp only: last_before_rfind [OF delim_lengths(4)])
  then have 1: "search_backwards f (int (length f)) END_DELIM = int e"
    by (simp add: search_backwards_rfind delim_lengths)
  have "rfind (take e f) START_DELIM = int s"
    using s by (simp only: last_before_rfind [OF delim_lengths(3)])
  then have 2: "search_backwards f (int e) START_DELIM = int s"
    by (simp add: search_backwards_rfind delim_lengths)
  have le: "s + 23 \<le> e" using s by (simp add: last_before_def delim_lengths)
  have 3: "file_read f (int s + 23) (int e - (int s + 23)) = take (e - (s + 23)) (drop (s + 23) f)"
    using le by (simp add: file_read_def nat_diff_distrib nat_add_distrib)
  show ?thesis
    by (simp add: read_core_json_def 1 2 3 delim_lengths Let_def)
qed

lemma read_core_json_no_end:
  assumes "\<forall>q. \<not> occurs_at f END_DELIM q"
  shows "read_core_json f = Inl AttributeError"
proof -
  have "rfind f END_DELIM = - 1"
    using assms by (rule rfind_none)
  then have "search_backwards f (int (length f)) END_DELIM = - 1"
    by (simp add: search_backwards_rfind delim_lengths)
  then show ?thesis by (simp add: read_core_json_def)
qed

text \<open>
  Claim C4. The end marker that \<open>_read\<close> finds is the last one in the file, the start
  marker is the last one that lies wholly before that end marker, and the text handed to
  the parser is the text between the two (line breaks removed), however many earlier
  dumps the log holds. The windows of \<open>_search_backwards\<close> overlap by 5000 bytes, so no
  marker is missed at a window boundary. Without any end marker \<open>_read\<close> fails.
\<close>

theorem read_selects_last_dump:
  "(last_before f END_DELIM (length f) e \<and> last_before f START_DELIM e s \<longrightarrow>
      read_core_json f =
        Inr (filter (\<lambda>c. c \<noteq> CHR 0x0D) (filter (\<lambda>c. c \<noteq> CHR 0x0A)
               (take (e - (s + length START_DELIM)) (drop (s + length START_DELIM) f))))) \<and>
   ((\<forall>q. \<not> occurs_at f END_DELIM q) \<longrightarrow> read_core_json f = Inl AttributeError)"
  using read_core_json_last [of f e s] read_core_json_no_end [of f]
  by (simp add: delim_lengths)

lemma td_len: "length two_dumps = 103" by (simp add: two_dumps_def delim_lengths)

lemma td_end: "rfind (take 103 two_dumps) END_DELIM = int 79"
  by code_simp

lemma td_start: "rfind (take 79 two_dumps) START_DELIM = int 52"
  by code_simp

theorem read_selects_last_dump_witness:
  "last_before two_dumps END_DELIM (length two_dumps) 79 \<and>
   last_before two_dumps START_DELIM 79 52 \<and>
   occurs_at two_dumps START_DELIM 1 \<and> occurs_at two_dumps END_DELIM 27 \<and>
   read_core_json two_dumps = Inr ''{2}''"
proof -
  have e: "last_before two_dumps END_DELIM (length two_dumps) 79"
    using td_end by (simp only: td_len last_before_rfind [OF delim_lengths(4)])
  have s: "last_before two_dumps START_DELIM 79 52"
    using td_start by (simp only: last_before_rfind [OF delim_lengths(3)])
  have o: "occurs_at two_dumps START_DELIM 1 \<and> occurs_at two_dumps END_DELIM 27"
    by code_simp
  have t: "filter (\<lambda>c. c \<noteq> CHR 0x0D) (filter (\<lambda>c. c \<noteq> CHR 0x0A)
               (take (79 - (52 + length START_DELIM)) (drop (52 + length START_DELIM) two_dumps))) = ''{2}''"
    by code_simp
  have "read_core_json two_dumps = Inr ''{2}''"
    using read_selects_last_dump [of two_dumps 79 52] e s t by simp
  then show ?thesis using e s o by blast
qed

subsection \<open>Mapping a firmware file\<close>



lemma py_int16_11000: "py_int16 ''11000'' = Inr 0x11000"
  by (simp add: py_int16_def strip_def is_space_def hex_val_def)




lemma stem_examples:
  "splitext_root (basename ''fw/11000.bin'') = ''11000''"
  "splitext_root (basename ''fw/empty/11000'') = ''11000''"
  "splitext_root (basename ''11000'') = ''11000''"
  "splitext_root (basename ''fw/0x00000.bin'') = ''0x00000''"
  by code_simp+



subsection \<open>The example environment\<close>

lemma good_log_len: "length (example_log good_json) = 137"
  by (simp add: example_log_def good_json_def delim_lengths)

lemma good_log_end: "rfind (take 137 (example_log good_json)) END_DELIM = int 113"
  by code_simp

lemma good_log_start: "rfind (take 113 (example_log good_json)) START_DELIM = int 5"
  by code_simp

lemma good_log_text:
  "filter (\<lambda>c. c \<noteq> CHR 0x0D) (filter (\<lambda>c. c \<noteq> CHR 0x0A)
     (take (113 - (5 + 23)) (drop (5 + 23) (example_log good_json)))) = good_json"
  by code_simp

lemma good_log_json: "read_core_json (example_log good_json) = Inr good_json"
proof -
  have e: "last_before (example_log good_json) END_DELIM (length (example_log good_json)) 113"
    using good_log_end by (simp only: good_log_len last_before_rfind [OF delim_lengths(4)])
  have s: "last_before (example_log good_json) START_DELIM 113 5"
    using good_log_start by (simp only: last_before_rfind [OF delim_lengths(3)])
  show ?thesis
    using read_core_json_last [OF e s] by (simp only: good_log_text)
qed







lemma good_Core_read: "Core_read (example_env ''good.log'') ''good.log'' = Inr (JDict good_items)"
  by (simp add: Core_read_def example_env_def example_files_def good_log_json example_loads_def)


lemma good_map_core:
  "map_core example_decodestring good_items = Inr [(1074790402, 1074790404, ''ab'')]"
  by (simp add: good_items_def map_entry_def getitem_def example_decodestring_def addr_value_def
        is_ascii_def)

lemma py_int16_0x00000: "py_int16 ''0x00000'' = Inr 0"
  by (simp add: py_int16_def strip_def is_space_def hex_val_def)

lemma example_firmware:
  "firmware_regions (example_env l) =
     Inr [(1074790400, 1074790404, ''WXYZ''),
          (0x40211010, 0x40211013, CHR 0xEA # CHR 0x04 # ''i''),
          (0x40000000, 0x40000001, ''R'')]"
proof -
  have a: "map_firmware example_files None (Some ''fw/0x00000.bin'') IRAM_BASE
      = Inr (1074790400, 1074790404, ''WXYZ'')"
    by (simp add: map_firmware_def firmware_addr_def stem_examples py_int16_0x00000 IRAM_BASE_def
          example_files_def)
  have b: "map_firmware example_files None (Some ''fw/11000.bin'') IROM_BASE
      = Inr (0x40211010, 0x40211013, CHR 0xEA # CHR 0x04 # ''i'')"
    by (simp add: map_firmware_def firmware_addr_def stem_examples py_int16_11000 IROM_BASE_def
          example_files_def)
  have c: "map_firmware example_files (Some ROM_BASE) (Some ''rom.bin'') ROM_BASE
      = Inr (0x40000000, 0x40000001, ''R'')"
    by (simp add: map_firmware_def firmware_addr_def ROM_BASE_def example_files_def)
  have d: "ROM_BASE \<noteq> 0" by (simp add: ROM_BASE_def)
  show ?thesis
    by (simp add: firmware_regions_def example_env_def a b c d)
qed

lemma good_Core_init:
  "Core_init (example_env ''good.log'') ''good.log'' =
     Inr \<lparr>mem = [(1074790402, 1074790404, ''ab''),
                 (1074790400, 1074790404, ''WXYZ''),
                 (0x40211010, 0x40211013, CHR 0xEA # CHR 0x04 # ''i''),
                 (0x40000000, 0x40000001, ''R'')],
          regs = ''rr''\<rparr>"
proof -
  have d: "decodestring (example_env ''good.log'') = example_decodestring"
    by (simp add: example_env_def)
  have r: "getitem (JDict good_items) ''REGS'' = Inr (JDict [(''data'', JStr ''cnI='')])"
    by (simp add: getitem_def good_items_def)
  have p: "getitem (JDict [(''data'', JStr ''cnI='')]) ''data'' = Inr (JStr ''cnI='')"
    by (simp add: getitem_def)
  have x: "example_decodestring (JStr ''cnI='') = Inr ''rr''"
    by (simp add: example_decodestring_def)
  show ?thesis
    by (simp add: Core_init_def good_Core_read d good_map_core example_firmware r p x)
qed

subsection \<open>Dump regions and firmware regions\<close>

lemma map_entry_wf: "map_entry dec k v = Inr r \<Longrightarrow> wf_region r"
  by (auto simp: map_entry_def wf_region_def split: sum.splits if_splits)

lemma map_core_wf: "map_core dec items = Inr m \<Longrightarrow> list_all wf_region m"
proof (induction items arbitrary: m)
  case Nil
  then show ?case by simp
next
  case (Cons kv items)
  obtain k v where kv: "kv = (k, v)" by (cases kv)
  show ?case
  proof (cases "region_entry (k, v)")
    case False
    then have "map_core dec (kv # items) = map_core dec items"
      by (simp add: kv region_entry_def split: json.splits)
    with Cons show ?thesis by simp
  next
    case True
    then obtain r m' where r: "map_entry dec k v = Inr r" "map_core dec items = Inr m'" "m = r # m'"
      using Cons.prems by (auto simp: kv region_entry_def split: json.splits sum.splits)
    then show ?thesis using Cons.IH [OF r(2)] map_entry_wf [OF r(1)] by simp
  qed
qed

lemma read_append: "list_ex (\<lambda>r. contains r addr) cr \<Longrightarrow> read pf (cr @ fw) addr sz = read pf cr addr sz"
proof (induction cr)
  case Nil
  then show ?case by simp
next
  case (Cons r cr)
  obtain b en d where r: "r = (b, en, d)" by (cases r)
  show ?case using Cons by (cases "contains r addr") (auto simp: r contains_def)
qed

lemma py_slice_one:
  assumes "0 \<le> i" "nat i < length xs"
  shows "py_slice xs i (i + 1) = [xs ! nat i]"
proof -
  have "take (Suc 0) (drop (nat i) xs) = [xs ! nat i]"
    using assms(2) by (simp add: Cons_nth_drop_Suc [symmetric])
  then show ?thesis using assms by (simp add: py_slice_def Let_def)
qed

lemma Core_init_mem:
  assumes "Core_init e fn = Inr c"
  shows "\<exists>items cr fw. Core_read e fn = Inr (JDict items) \<and> map_core (decodestring e) items = Inr cr \<and>
           firmware_regions e = Inr fw \<and> mem c = cr @ fw"
  using assms by (auto simp: Core_init_def split: sum.splits json.splits)

lemma read_core_first:
  assumes m: "map_core dec items = Inr (pre @ (b, en, d) # post)"
    and p: "list_all (\<lambda>r. \<not> contains r addr) pre"
    and c: "contains (b, en, d) addr"
  shows "nat (addr - b) < length d"
    and "read pf ((pre @ (b, en, d) # post) @ fw) addr sz = Inr (py_slice d (addr - b) (addr - b + sz))"
    and "read pf ((pre @ (b, en, d) # post) @ fw) addr 1 = Inr [d ! nat (addr - b)]"
proof -
  have "wf_region (b, en, d)" using map_core_wf [OF m] by simp
  then have bounds: "0 \<le> addr - b" "nat (addr - b) < length d"
    using c by (auto simp: contains_def wf_region_def)
  show "nat (addr - b) < length d" by (rule bounds(2))
  have r: "read pf ((pre @ (b, en, d) # post) @ fw) addr n = Inr (py_slice d (addr - b) (addr - b + n))" for n
    using read_skip [OF p, of pf "(b, en, d) # post @ fw" n] read_hit [OF c, of pf "post @ fw" n]
    by simp
  show "read pf ((pre @ (b, en, d) # post) @ fw) addr sz = Inr (py_slice d (addr - b) (addr - b + sz))"
    by (rule r)
  show "read pf ((pre @ (b, en, d) # post) @ fw) addr 1 = Inr [d ! nat (addr - b)]"
    using r [of 1] py_slice_one [OF bounds] by simp
qed

text \<open>
  Claim C3. The memory map that \<open>Core.__init__\<close> builds is the regions of the dump, in
  the order of its items, followed by the firmware regions. An address that a region of
  the dump covers is read from the first such region, whatever the firmware regions are:
  one byte read there is that region's byte at offset \<open>addr - base\<close>.
\<close>

theorem core_shadows_firmware:
  "(Core_init e fn = Inr c \<longrightarrow>
      (\<exists>items cr fw. Core_read e fn = Inr (JDict items) \<and> map_core (decodestring e) items = Inr cr \<and>
         firmware_regions e = Inr fw \<and> mem c = cr @ fw)) \<and>
   (list_ex (\<lambda>r. contains r addr) cr' \<longrightarrow> read pf (cr' @ fw') addr sz = read pf cr' addr sz) \<and>
   (map_core dec its = Inr (pre @ (b, en, d) # post) \<and> list_all (\<lambda>r. \<not> contains r addr) pre \<and>
    contains (b, en, d) addr \<longrightarrow>
      nat (addr - b) < length d \<and>
      read pf ((pre @ (b, en, d) # post) @ fw') addr sz = Inr (py_slice d (addr - b) (addr - b + sz)) \<and>
      read pf ((pre @ (b, en, d) # post) @ fw') addr 1 = Inr [d ! nat (addr - b)])"
  using Core_init_mem [of e fn c] read_append [of addr cr' pf fw' sz]
    read_core_first(1) [of dec its pre b en d post addr]
    read_core_first(2) [of dec its pre b en d post addr pf fw' sz]
    read_core_first(3) [of dec its pre b en d post addr pf fw']
  by blast

theorem core_shadows_firmware_witness:
  "Core_init (example_env ''good.log'') ''good.log'' =
     Inr \<lparr>mem = [(1074790402, 1074790404, ''ab''),
                 (1074790400, 1074790404, ''WXYZ''),
                 (0x40211010, 0x40211013, CHR 0xEA # CHR 0x04 # ''i''),
                 (0x40000000, 0x40000001, ''R'')],
          regs = ''rr''\<rparr> \<and>
   map_core example_decodestring good_items = Inr ([] @ (1074790402, 1074790404, ''ab'') # []) \<and>
   contains (1074790402, 1074790404, ''ab'') 1074790403 \<and>
   contains (1074790400, 1074790404, ''WXYZ'') 1074790403 \<and>
   read platform64 [(1074790402, 1074790404, ''ab''),
                    (1074790400, 1074790404, ''WXYZ''),
                    (0x40211010, 0x40211013, CHR 0xEA # CHR 0x04 # ''i''),
                    (0x40000000, 0x40000001, ''R'')] 1074790403 1 = Inr ''b'' \<and>
   read platform64 [(1074790400, 1074790404, ''WXYZ''),
                    (0x40211010, 0x40211013, CHR 0xEA # CHR 0x04 # ''i''),
                    (0x40000000, 0x40000001, ''R'')] 1074790403 1 = Inr ''Z''"
proof -
  let ?fw = "[(1074790400, 1074790404, ''WXYZ''),
              (0x40211010, 0x40211013, CHR 0xEA # CHR 0x04 # ''i''),
              (0x40000000, 0x40000001, ''R'')] :: region list"
  note T = core_shadows_firmware [where e = "example_env ''good.log''" and fn = "''good.log''"
      and dec = example_decodestring and its = good_items and pre = "[]" and post = "[]"
      and b = 1074790402 and en = 1074790404 and d = "''ab''" and addr = 1074790403
      and pf = platform64 and fw' = ?fw and sz = 1 and cr' = "[(1074790402, 1074790404, ''ab'')]"]
  have m: "map_core example_decodestring good_items = Inr ([] @ (1074790402, 1074790404, ''ab'') # [])"
    by (simp add: good_map_core)
  have c: "contains (1074790402, 1074790404, ''ab'') 1074790403"
    by (simp add: contains_def)
  have c': "contains (1074790400, 1074790404, ''WXYZ'') 1074790403"
    by (simp add: contains_def)
  have "read platform64 (([] @ (1074790402, 1074790404, ''ab'') # []) @ ?fw) 1074790403 1
      = Inr [''ab'' ! nat (1074790403 - 1074790402)]"
    using T m c by simp
  then have r: "read platform64 ((1074790402, 1074790404, ''ab'') # ?fw) 1074790403 1 = Inr ''b''"
    by simp
  have f: "read platform64 ?fw 1074790403 1 = Inr ''Z''"
    by (simp add: py_slice_def eval_nat_numeral)
  show ?thesis using good_Core_init m c c' r f by simp
qed

subsection \<open>Malformed items of the dump\<close>










end
